theory Spec2Isabelle
  imports Main
begin

section \<open>JavaScript values and the object store\<close>

text \<open>
  The embedding follows \<^verbatim>\<open>src/account-summaries/account_index.js\<close>.
  A JavaScript value is \<^verbatim>\<open>undefined\<close>, \<^verbatim>\<open>null\<close>, a boolean, a whole number, a
  string, a reference to an object of the store, or a built-in that objects inherit from
  \<^verbatim>\<open>Object.prototype\<close>. An object is a map from the names of its own properties to
  values; an array is an object whose elements sit under the decimal names
  \<^verbatim>\<open>"0"\<close>, \<^verbatim>\<open>"1"\<close>, ... The two module variables \<^verbatim>\<open>accountTree\<close> and
  \<^verbatim>\<open>entityIndex\<close> are objects of their own that no input refers to; every other
  object lives in the store, so that an assignment through one reference is seen
  through every other one, as in the source.

  Limits of the embedding: numbers are whole numbers; an assignment to the name
  \<^verbatim>\<open>__proto__\<close> stores an own property where the source changes the prototype; the
  own properties of built-ins, and what strings and arrays inherit beyond
  \<^verbatim>\<open>Object.prototype\<close>, are left out. The general theorems state as hypotheses what
  keeps a response away from these limits.
\<close>

type_synonym addr = nat

datatype val = Undefined | Null | Bool bool | Num int | Str string | Ref addr | Native string

type_synonym obj = "string \<rightharpoonup> val"

datatype error = TypeError

record state =
  accountTree :: obj
  entityIndex :: obj
  heap :: "addr \<Rightarrow> obj"
  nxt :: addr

text \<open>The outcome of a statement: it completes, or it throws; the store keeps what was
  written before the throw.\<close>

datatype completion = Done state | Throws error state

text \<open>Truthiness, as the loop tests and the \<^verbatim>\<open>if\<close> guards of the source use it. A
  reference is always truthy, an empty array included; the number \<^verbatim>\<open>0\<close> and the
  empty string are falsy.\<close>

fun truthy :: "val \<Rightarrow> bool" where
  "truthy Undefined = False"
| "truthy Null = False"
| "truthy (Bool b) = b"
| "truthy (Num n) = (n \<noteq> 0)"
| "truthy (Str t) = (t \<noteq> [])"
| "truthy (Ref a) = True"
| "truthy (Native n) = True"

text \<open>The decimal name of an array index, and the decimal form of a whole number.\<close>

fun dec :: "nat \<Rightarrow> string" where
  "dec n = (if n < 10 then [''0123456789'' ! n]
            else dec (n div 10) @ [''0123456789'' ! (n mod 10)])"

declare dec.simps [simp del]

text \<open>String coercion, used for property keys and by \<^verbatim>\<open>+\<close> on a string. The string
  form of a reference is that of a plain object; the source gives an array its joined
  elements instead, so the theorems that depend on a key assume string identifiers.
  The string form of a built-in function depends on the engine.\<close>

fun to_string :: "val \<Rightarrow> string" where
  "to_string Undefined = ''undefined''"
| "to_string Null = ''null''"
| "to_string (Bool b) = (if b then ''true'' else ''false'')"
| "to_string (Num n) = (if n < 0 then ''-'' @ dec (nat (- n)) else dec (nat n))"
| "to_string (Str t) = t"
| "to_string (Ref a) = ''[object Object]''"
| "to_string (Native n) = ''function '' @ n @ ''() { [native code] }''"

text \<open>The property names that every object inherits from \<^verbatim>\<open>Object.prototype\<close>
  (ECMAScript 5, section 15.2.4 and annex B of the later editions); they belong to the
  JavaScript runtime, not to the source file.\<close>

definition inherited_names :: "string list" where
  "inherited_names =
     [''constructor'', ''toString'', ''toLocaleString'', ''valueOf'', ''hasOwnProperty'',
      ''isPrototypeOf'', ''propertyIsEnumerable'', ''__proto__'', ''__defineGetter__'',
      ''__defineSetter__'', ''__lookupGetter__'', ''__lookupSetter__'']"

text \<open>\<^verbatim>\<open>o[k]\<close> on an object with the own properties \<open>m\<close>: the own property if there is
  one, else the inherited built-in, else \<^verbatim>\<open>undefined\<close>.\<close>

definition lookup :: "obj \<Rightarrow> string \<Rightarrow> val" where
  "lookup m k =
     (case m k of
        None \<Rightarrow> if k \<in> set inherited_names then Native k else Undefined
      | Some v \<Rightarrow> v)"

text \<open>\<^verbatim>\<open>t[k]\<close> on a string primitive: its length, its characters, and what it inherits
  from \<^verbatim>\<open>Object.prototype\<close>.\<close>

definition str_prop :: "string \<Rightarrow> string \<Rightarrow> val" where
  "str_prop t k =
     (if k = ''length'' then Num (int (length t))
      else (case find (\<lambda>i. dec i = k) [0..<length t] of
              Some i \<Rightarrow> Str [t ! i]
            | None \<Rightarrow> lookup Map.empty k))"

text \<open>\<^verbatim>\<open>v[k]\<close>: reading a property of \<^verbatim>\<open>undefined\<close> or \<^verbatim>\<open>null\<close> throws.\<close>

fun get_prop :: "state \<Rightarrow> val \<Rightarrow> string \<Rightarrow> error + val" where
  "get_prop s Undefined k = Inl TypeError"
| "get_prop s Null k = Inl TypeError"
| "get_prop s (Bool b) k = Inr (lookup Map.empty k)"
| "get_prop s (Num n) k = Inr (lookup Map.empty k)"
| "get_prop s (Str t) k = Inr (str_prop t k)"
| "get_prop s (Ref a) k = Inr (lookup (heap s a) k)"
| "get_prop s (Native n) k = Inr (lookup Map.empty k)"

text \<open>\<^verbatim>\<open>v[k] = x\<close>: writing a property of \<^verbatim>\<open>undefined\<close> or \<^verbatim>\<open>null\<close> throws, writing
  one of a primitive does nothing (the file is not in strict mode).\<close>

fun set_prop :: "val \<Rightarrow> string \<Rightarrow> val \<Rightarrow> state \<Rightarrow> completion" where
  "set_prop Undefined k x s = Throws TypeError s"
| "set_prop Null k x s = Throws TypeError s"
| "set_prop (Bool b) k x s = Done s"
| "set_prop (Num n) k x s = Done s"
| "set_prop (Str t) k x s = Done s"
| "set_prop (Ref a) k x s = Done (s\<lparr>heap := (heap s)(a := (heap s a)(k \<mapsto> x))\<rparr>)"
| "set_prop (Native n) k x s = Done s"

text \<open>\<^verbatim>\<open>{}\<close>: a fresh object with no property.\<close>

definition new_object :: "state \<Rightarrow> val \<times> state" where
  "new_object s = (Ref (nxt s), s\<lparr>heap := (heap s)(nxt s := Map.empty), nxt := Suc (nxt s)\<rparr>)"

text \<open>Sequencing of statements.\<close>

fun and_then :: "completion \<Rightarrow> (state \<Rightarrow> completion) \<Rightarrow> completion" where
  "and_then (Done s) f = f s"
| "and_then (Throws e s) f = Throws e s"

text \<open>A statement that needs the value of an expression first.\<close>

fun with_val :: "error + val \<Rightarrow> state \<Rightarrow> (val \<Rightarrow> completion) \<Rightarrow> completion" where
  "with_val (Inl e) s f = Throws e s"
| "with_val (Inr v) s f = f v"

section \<open>The module state\<close>

definition ACCOUNT_PREFIX :: string where "ACCOUNT_PREFIX = ''a''"
definition PROPERTY_PREFIX :: string where "PROPERTY_PREFIX = ''p''"
definition PROFILE_PREFIX :: string where "PROFILE_PREFIX = ''v''"

text \<open>\<^verbatim>\<open>var accountTree = {}; var entityIndex = {};\<close> over a store that holds the
  objects \<open>os\<close>, the object at address \<open>a\<close> being \<open>os ! a\<close>.\<close>

definition loaded :: "obj list \<Rightarrow> state" where
  "loaded os = \<lparr>accountTree = Map.empty, entityIndex = Map.empty,
     heap = (\<lambda>a. if a < length os then os ! a else Map.empty), nxt = length os\<rparr>"

section \<open>buildAccountTreeIndex\<close>

text \<open>\<^verbatim>\<open>accountTree[account.id] = account;\<close>\<close>

definition tree_put_account :: "val \<Rightarrow> state \<Rightarrow> completion" where
  "tree_put_account account s =
     with_val (get_prop s account ''id'') s (\<lambda>aid.
       Done (s\<lparr>accountTree := (accountTree s)(to_string aid \<mapsto> account)\<rparr>))"

text \<open>\<^verbatim>\<open>accountTree[account.id][property.id] = property;\<close>\<close>

definition tree_put_property :: "val \<Rightarrow> val \<Rightarrow> state \<Rightarrow> completion" where
  "tree_put_property account property s =
     with_val (get_prop s account ''id'') s (\<lambda>aid.
     with_val (get_prop s property ''id'') s (\<lambda>pid.
       set_prop (lookup (accountTree s) (to_string aid)) (to_string pid) property s))"

text \<open>\<^verbatim>\<open>entityIndex[ACCOUNT_PREFIX + PROPERTY_PREFIX + property.id] = account.id;\<close>\<close>

definition index_put :: "string \<Rightarrow> string \<Rightarrow> val \<Rightarrow> val \<Rightarrow> state \<Rightarrow> completion" where
  "index_put prefix1 prefix2 child parent s =
     with_val (get_prop s child ''id'') s (\<lambda>cid.
     with_val (get_prop s parent ''id'') s (\<lambda>par.
       Done (s\<lparr>entityIndex := (entityIndex s)(prefix1 @ prefix2 @ to_string cid \<mapsto> par)\<rparr>)))"

text \<open>\<^verbatim>\<open>accountTree[account.id][property.id][profile.id] = profile;\<close>\<close>

definition tree_put_profile :: "val \<Rightarrow> val \<Rightarrow> val \<Rightarrow> state \<Rightarrow> completion" where
  "tree_put_profile account property profile s =
     with_val (get_prop s account ''id'') s (\<lambda>aid.
     with_val (get_prop s property ''id'') s (\<lambda>pid.
     with_val (get_prop s (lookup (accountTree s) (to_string aid)) (to_string pid)) s (\<lambda>node.
     with_val (get_prop s profile ''id'') s (\<lambda>vid.
       set_prop node (to_string vid) profile s))))"

text \<open>The body of the innermost loop.\<close>

definition profile_body :: "val \<Rightarrow> val \<Rightarrow> val \<Rightarrow> state \<Rightarrow> completion" where
  "profile_body account property profile s =
     and_then (tree_put_profile account property profile s) (\<lambda>s.
     and_then (index_put ACCOUNT_PREFIX PROFILE_PREFIX profile account s) (\<lambda>s.
       index_put PROPERTY_PREFIX PROFILE_PREFIX profile property s))"

text \<open>\<^verbatim>\<open>for (var p = 0, profile; profile = property.profiles[p]; ++p) { ... }\<close>
  The result is \<open>None\<close> when the loop never ends.\<close>

partial_function (option) profiles_loop :: "val \<Rightarrow> val \<Rightarrow> nat \<Rightarrow> state \<Rightarrow> completion option" where
  "profiles_loop account property p s =
     (case get_prop s property ''profiles'' of
        Inl e \<Rightarrow> Some (Throws e s)
      | Inr profiles \<Rightarrow>
         (case get_prop s profiles (dec p) of
            Inl e \<Rightarrow> Some (Throws e s)
          | Inr profile \<Rightarrow>
              if truthy profile then
                (case profile_body account property profile s of
                   Throws e s' \<Rightarrow> Some (Throws e s')
                 | Done s' \<Rightarrow> profiles_loop account property (Suc p) s')
              else Some (Done s)))"

text \<open>The body of the middle loop: \<^verbatim>\<open>if (property.profiles) { ... }\<close>\<close>

definition property_body :: "val \<Rightarrow> val \<Rightarrow> state \<Rightarrow> completion option" where
  "property_body account property s =
     (case get_prop s property ''profiles'' of
        Inl e \<Rightarrow> Some (Throws e s)
      | Inr profiles \<Rightarrow>
          if truthy profiles then
            (case and_then (tree_put_property account property s)
                    (index_put ACCOUNT_PREFIX PROPERTY_PREFIX property account) of
               Throws e s' \<Rightarrow> Some (Throws e s')
             | Done s' \<Rightarrow> profiles_loop account property 0 s')
          else Some (Done s))"

text \<open>\<^verbatim>\<open>for (var w = 0, property; property = account.webProperties[w]; ++w) { ... }\<close>\<close>

partial_function (option) properties_loop :: "val \<Rightarrow> nat \<Rightarrow> state \<Rightarrow> completion option" where
  "properties_loop account w s =
     (case get_prop s account ''webProperties'' of
        Inl e \<Rightarrow> Some (Throws e s)
      | Inr webProperties \<Rightarrow>
         (case get_prop s webProperties (dec w) of
            Inl e \<Rightarrow> Some (Throws e s)
          | Inr property \<Rightarrow>
              if truthy property then
                (case property_body account property s of
                   None \<Rightarrow> None
                 | Some (Throws e s') \<Rightarrow> Some (Throws e s')
                 | Some (Done s') \<Rightarrow> properties_loop account (Suc w) s')
              else Some (Done s)))"

text \<open>The body of the outer loop.\<close>

definition account_body :: "val \<Rightarrow> state \<Rightarrow> completion option" where
  "account_body account s =
     (case tree_put_account account s of
        Throws e s' \<Rightarrow> Some (Throws e s')
      | Done s' \<Rightarrow> properties_loop account 0 s')"

text \<open>\<^verbatim>\<open>for (var i = 0, account; account = accountSummariesResponse.items[i]; ++i) { ... }\<close>\<close>

partial_function (option) accounts_loop :: "val \<Rightarrow> nat \<Rightarrow> state \<Rightarrow> completion option" where
  "accounts_loop accountSummariesResponse i s =
     (case get_prop s accountSummariesResponse ''items'' of
        Inl e \<Rightarrow> Some (Throws e s)
      | Inr items \<Rightarrow>
         (case get_prop s items (dec i) of
            Inl e \<Rightarrow> Some (Throws e s)
          | Inr account \<Rightarrow>
              if truthy account then
                (case account_body account s of
                   None \<Rightarrow> None
                 | Some (Throws e s') \<Rightarrow> Some (Throws e s')
                 | Some (Done s') \<Rightarrow> accounts_loop accountSummariesResponse (Suc i) s')
              else Some (Done s)))"

definition buildAccountTreeIndex :: "val \<Rightarrow> state \<Rightarrow> completion option" where
  "buildAccountTreeIndex accountSummariesResponse s = accounts_loop accountSummariesResponse 0 s"

text \<open>\<^verbatim>\<open>initSummaries(accountSummariesResponse)\<close> only calls the build.\<close>

definition initSummaries :: "val \<Rightarrow> state \<Rightarrow> completion option" where
  "initSummaries accountSummariesResponse s = buildAccountTreeIndex accountSummariesResponse s"

section \<open>The lookups\<close>

text \<open>A lookup returns a value or throws, and may allocate the empty object it returns.\<close>

text \<open>\<^verbatim>\<open>_getEntityId(indexKey)\<close>\<close>

definition getEntityId :: "string \<Rightarrow> state \<Rightarrow> val" where
  "getEntityId indexKey s =
     (if truthy (lookup (entityIndex s) indexKey) then lookup (entityIndex s) indexKey
      else Str '''')"

definition getAccount :: "val \<Rightarrow> state \<Rightarrow> (error + val) \<times> state" where
  "getAccount accountId s =
     (if truthy (lookup (accountTree s) (to_string accountId))
      then (Inr (lookup (accountTree s) (to_string accountId)), s)
      else (case new_object s of (v, s') \<Rightarrow> (Inr v, s')))"

text \<open>\<^verbatim>\<open>_getProperty(accountId, propertyId)\<close>\<close>

definition getProperty' :: "val \<Rightarrow> val \<Rightarrow> state \<Rightarrow> (error + val) \<times> state" where
  "getProperty' accountId propertyId s =
     (if truthy (lookup (accountTree s) (to_string accountId)) then
        (case get_prop s (lookup (accountTree s) (to_string accountId)) (to_string propertyId) of
           Inl e \<Rightarrow> (Inl e, s)
         | Inr property \<Rightarrow>
             if truthy property then (Inr property, s)
             else (case new_object s of (v, s') \<Rightarrow> (Inr v, s')))
      else (case new_object s of (v, s') \<Rightarrow> (Inr v, s')))"

definition getAccountByPropertyId :: "val \<Rightarrow> state \<Rightarrow> (error + val) \<times> state" where
  "getAccountByPropertyId propertyId s =
     getAccount (getEntityId (ACCOUNT_PREFIX @ PROPERTY_PREFIX @ to_string propertyId) s) s"

definition getAccountByProfileId :: "val \<Rightarrow> state \<Rightarrow> (error + val) \<times> state" where
  "getAccountByProfileId profileId s =
     getAccount (getEntityId (ACCOUNT_PREFIX @ PROFILE_PREFIX @ to_string profileId) s) s"

definition getPropertyByProfileId :: "val \<Rightarrow> state \<Rightarrow> (error + val) \<times> state" where
  "getPropertyByProfileId profileId s =
     getProperty' (getEntityId (ACCOUNT_PREFIX @ PROFILE_PREFIX @ to_string profileId) s)
       (getEntityId (PROPERTY_PREFIX @ PROFILE_PREFIX @ to_string profileId) s) s"

definition getProperty :: "val \<Rightarrow> state \<Rightarrow> (error + val) \<times> state" where
  "getProperty propertyId s =
     (case getAccountByPropertyId propertyId s of
        (Inl e, s') \<Rightarrow> (Inl e, s')
      | (Inr account, s') \<Rightarrow>
          if truthy account then (get_prop s' account (to_string propertyId), s')
          else (case new_object s' of (v, s'') \<Rightarrow> (Inr v, s'')))"

definition getProfile :: "val \<Rightarrow> state \<Rightarrow> (error + val) \<times> state" where
  "getProfile profileId s =
     (case getPropertyByProfileId profileId s of
        (Inl e, s') \<Rightarrow> (Inl e, s')
      | (Inr property, s') \<Rightarrow>
          if truthy property then (get_prop s' property (to_string profileId), s')
          else (case new_object s' of (v, s'') \<Rightarrow> (Inr v, s'')))"

section \<open>Observing results\<close>

text \<open>\<open>after r P\<close>: the build completed without throwing, in a state that satisfies \<open>P\<close>.\<close>

definition after :: "completion option \<Rightarrow> (state \<Rightarrow> bool) \<Rightarrow> bool" where
  "after r P = (case r of Some (Done s) \<Rightarrow> P s | _ \<Rightarrow> False)"

text \<open>\<^verbatim>\<open>lookup(...).k\<close>: a property of the value that a lookup returned.\<close>

definition field :: "(error + val) \<times> state \<Rightarrow> string \<Rightarrow> error + val" where
  "field r k = (case r of (Inl e, s) \<Rightarrow> Inl e | (Inr v, s) \<Rightarrow> get_prop s v k)"

text \<open>The lookup returned an object that has no property.\<close>

definition empty_object :: "(error + val) \<times> state \<Rightarrow> bool" where
  "empty_object r = (case r of (Inr (Ref a), s) \<Rightarrow> dom (heap s a) = {} | _ \<Rightarrow> False)"

text \<open>What a read leaves alone: the tree, the index and every object that existed.\<close>

definition unchanged :: "state \<Rightarrow> state \<Rightarrow> bool" where
  "unchanged s s' \<longleftrightarrow>
     accountTree s' = accountTree s \<and> entityIndex s' = entityIndex s \<and>
     (\<forall>a. a < nxt s \<longrightarrow> heap s' a = heap s a)"

section \<open>Assignments\<close>

text \<open>The build changes the state by assignments only: to a key of the tree, to a key of
  the index, or to a property of an object of the store. They are used to describe what
  a build has done.\<close>

datatype assignment = WTree string val | WIndex string val | WHeap addr string val

fun apply_write :: "assignment \<Rightarrow> state \<Rightarrow> state" where
  "apply_write (WTree k v) s = s\<lparr>accountTree := (accountTree s)(k \<mapsto> v)\<rparr>"
| "apply_write (WIndex k v) s = s\<lparr>entityIndex := (entityIndex s)(k \<mapsto> v)\<rparr>"
| "apply_write (WHeap a k v) s = s\<lparr>heap := (heap s)(a := (heap s a)(k \<mapsto> v))\<rparr>"

definition apply_writes :: "assignment list \<Rightarrow> state \<Rightarrow> state" where
  "apply_writes ws s = fold apply_write ws s"

text \<open>The effect of any list of assignments: fixed maps laid over the tree, the index
  and the objects.\<close>

definition overlay :: "obj \<Rightarrow> obj \<Rightarrow> (addr \<Rightarrow> obj) \<Rightarrow> state \<Rightarrow> state" where
  "overlay T I H s =
     s\<lparr>accountTree := accountTree s ++ T, entityIndex := entityIndex s ++ I,
       heap := (\<lambda>a. heap s a ++ H a)\<rparr>"

section \<open>The shape of a response\<close>

text \<open>
  A shape describes the part of a response that the build reads: the response object
  and its \<^verbatim>\<open>items\<close> array; for each account before the first falsy entry of
  \<^verbatim>\<open>items\<close>, its address, its \<^verbatim>\<open>id\<close> and its \<^verbatim>\<open>webProperties\<close> array; for each
  property before the first falsy entry of that array, its address, its \<^verbatim>\<open>id\<close> and,
  when its \<^verbatim>\<open>profiles\<close> field is truthy, the array it refers to; for each profile
  before the first falsy entry of that array, its address and its \<^verbatim>\<open>id\<close>. What the
  arrays hold after their first falsy entry is not part of the shape.
\<close>

datatype profile_shape = ProfileShape (v_addr: addr) (v_id: val)

datatype property_shape =
  PropertyShape (p_addr: addr) (p_id: val) (p_profiles: "(addr \<times> profile_shape list) option")

datatype account_shape =
  AccountShape (a_addr: addr) (a_id: val) (a_array: addr) (a_properties: "property_shape list")

datatype response_shape =
  ResponseShape (r_addr: addr) (r_array: addr) (r_accounts: "account_shape list")

text \<open>\<open>seq_at h arr xs\<close>: in the store \<open>h\<close>, the array at \<open>arr\<close> holds references to the
  objects \<open>xs\<close> at the indices \<open>0, 1, ...\<close> and a falsy value (or nothing) right after
  them.\<close>

definition seq_at :: "(addr \<Rightarrow> obj) \<Rightarrow> addr \<Rightarrow> addr list \<Rightarrow> bool" where
  "seq_at h arr xs \<longleftrightarrow>
     (\<forall>i. i < length xs \<longrightarrow> lookup (h arr) (dec i) = Ref (xs ! i)) \<and>
     \<not> truthy (lookup (h arr) (dec (length xs)))"

text \<open>The store holds the profile, the property, the account, the response of a
  shape: the fields that the build reads have the values that the shape gives.\<close>

definition profile_at :: "(addr \<Rightarrow> obj) \<Rightarrow> profile_shape \<Rightarrow> bool" where
  "profile_at h V \<longleftrightarrow> lookup (h (v_addr V)) ''id'' = v_id V"

definition property_at :: "(addr \<Rightarrow> obj) \<Rightarrow> property_shape \<Rightarrow> bool" where
  "property_at h P \<longleftrightarrow>
     lookup (h (p_addr P)) ''id'' = p_id P \<and>
     (case p_profiles P of
        None \<Rightarrow> \<not> truthy (lookup (h (p_addr P)) ''profiles'')
      | Some (arr, vs) \<Rightarrow>
          lookup (h (p_addr P)) ''profiles'' = Ref arr \<and>
          seq_at h arr (map v_addr vs) \<and> list_all (profile_at h) vs)"

definition account_at :: "(addr \<Rightarrow> obj) \<Rightarrow> account_shape \<Rightarrow> bool" where
  "account_at h A \<longleftrightarrow>
     lookup (h (a_addr A)) ''id'' = a_id A \<and>
     lookup (h (a_addr A)) ''webProperties'' = Ref (a_array A) \<and>
     seq_at h (a_array A) (map p_addr (a_properties A)) \<and>
     list_all (property_at h) (a_properties A)"

definition response_at :: "(addr \<Rightarrow> obj) \<Rightarrow> response_shape \<Rightarrow> bool" where
  "response_at h R \<longleftrightarrow>
     lookup (h (r_addr R)) ''items'' = Ref (r_array R) \<and>
     seq_at h (r_array R) (map a_addr (r_accounts R)) \<and>
     list_all (account_at h) (r_accounts R)"

definition profiles_of :: "property_shape \<Rightarrow> profile_shape list" where
  "profiles_of P = (case p_profiles P of None \<Rightarrow> [] | Some (arr, vs) \<Rightarrow> vs)"

definition all_properties :: "response_shape \<Rightarrow> property_shape list" where
  "all_properties R = concat (map a_properties (r_accounts R))"

definition all_profiles :: "response_shape \<Rightarrow> profile_shape list" where
  "all_profiles R = concat (map profiles_of (all_properties R))"

text \<open>The objects that the build only reads: the response, the arrays and the
  profiles.\<close>

definition property_others :: "property_shape \<Rightarrow> addr list" where
  "property_others P =
     (case p_profiles P of None \<Rightarrow> [] | Some (arr, vs) \<Rightarrow> arr # map v_addr vs)"

definition response_others :: "response_shape \<Rightarrow> addr list" where
  "response_others R =
     r_addr R # r_array R # map a_array (r_accounts R) @
     concat (map property_others (all_properties R))"

text \<open>
  A shape is well formed when the objects that the build assigns to (accounts and
  properties) are not also arrays, profiles or the response, no object is both an
  account and a property, and no child identifier is the name of a field that the build
  reads from the parent: no property is called \<^verbatim>\<open>id\<close> or \<^verbatim>\<open>webProperties\<close>, no
  profile \<^verbatim>\<open>id\<close> or \<^verbatim>\<open>profiles\<close>. Identifiers may repeat.
\<close>

definition wf_shape :: "response_shape \<Rightarrow> bool" where
  "wf_shape R \<longleftrightarrow>
     set (response_others R) \<inter> (a_addr ` set (r_accounts R) \<union> p_addr ` set (all_properties R)) = {} \<and>
     a_addr ` set (r_accounts R) \<inter> p_addr ` set (all_properties R) = {} \<and>
     (\<forall>P \<in> set (all_properties R). to_string (p_id P) \<notin> {''id'', ''webProperties''}) \<and>
     (\<forall>V \<in> set (all_profiles R). to_string (v_id V) \<notin> {''id'', ''profiles''})"

text \<open>\<open>holds s R\<close>: the store of \<open>s\<close> holds a response of the well-formed shape \<open>R\<close>.\<close>

definition holds :: "state \<Rightarrow> response_shape \<Rightarrow> bool" where
  "holds s R \<longleftrightarrow> wf_shape R \<and> response_at (heap s) R"

text \<open>An assignment that leaves every field alone that the build reads.\<close>

definition ok_write :: "response_shape \<Rightarrow> assignment \<Rightarrow> bool" where
  "ok_write R w = (case w of
      WHeap x k v \<Rightarrow> (x \<in> a_addr ` set (r_accounts R) \<and> k \<notin> {''id'', ''webProperties''}) \<or>
                     (x \<in> p_addr ` set (all_properties R) \<and> k \<notin> {''id'', ''profiles''})
    | _ \<Rightarrow> True)"

text \<open>The assignments of a build, in the order of the source: for a profile, for a
  property (none when its \<^verbatim>\<open>profiles\<close> field is falsy), for an account, for the
  response.\<close>

definition profile_writes :: "account_shape \<Rightarrow> property_shape \<Rightarrow> profile_shape \<Rightarrow> assignment list" where
  "profile_writes A P V =
     [WHeap (p_addr P) (to_string (v_id V)) (Ref (v_addr V)),
      WIndex (ACCOUNT_PREFIX @ PROFILE_PREFIX @ to_string (v_id V)) (a_id A),
      WIndex (PROPERTY_PREFIX @ PROFILE_PREFIX @ to_string (v_id V)) (p_id P)]"

definition property_writes :: "account_shape \<Rightarrow> property_shape \<Rightarrow> assignment list" where
  "property_writes A P =
     (case p_profiles P of
        None \<Rightarrow> []
      | Some (arr, vs) \<Rightarrow>
          [WHeap (a_addr A) (to_string (p_id P)) (Ref (p_addr P)),
           WIndex (ACCOUNT_PREFIX @ PROPERTY_PREFIX @ to_string (p_id P)) (a_id A)] @
          concat (map (profile_writes A P) vs))"

definition account_writes :: "account_shape \<Rightarrow> assignment list" where
  "account_writes A =
     WTree (to_string (a_id A)) (Ref (a_addr A)) # concat (map (property_writes A) (a_properties A))"

definition response_writes :: "response_shape \<Rightarrow> assignment list" where
  "response_writes R = concat (map account_writes (r_accounts R))"

text \<open>The properties that are not skipped, each with its account, and the profiles with
  their property and account.\<close>

definition kept_properties :: "response_shape \<Rightarrow> (account_shape \<times> property_shape) list" where
  "kept_properties R =
     concat (map (\<lambda>A. map (Pair A) (filter (\<lambda>P. p_profiles P \<noteq> None) (a_properties A)))
       (r_accounts R))"

definition entries :: "response_shape \<Rightarrow> (account_shape \<times> property_shape \<times> profile_shape) list" where
  "entries R =
     concat (map (\<lambda>(A, P). map (\<lambda>V. (A, P, V)) (profiles_of P)) (kept_properties R))"

text \<open>An identifier within the limits of the embedding: a string other than
  \<^verbatim>\<open>__proto__\<close>. Identifiers are unique within their kind when no two accounts, no
  two properties that are not skipped and no two profiles have the same one; a property
  and a profile may.\<close>

definition plain_id :: "val \<Rightarrow> bool" where
  "plain_id v = (case v of Str t \<Rightarrow> t \<noteq> ''__proto__'' | _ \<Rightarrow> False)"

definition unique_ids :: "response_shape \<Rightarrow> bool" where
  "unique_ids R \<longleftrightarrow>
     distinct (map (\<lambda>A. to_string (a_id A)) (r_accounts R)) \<and>
     distinct (map (\<lambda>(A, P). to_string (p_id P)) (kept_properties R)) \<and>
     distinct (map (\<lambda>(A, P, V). to_string (v_id V)) (entries R))"

definition plain_ids :: "response_shape \<Rightarrow> bool" where
  "plain_ids R \<longleftrightarrow>
     list_all (\<lambda>A. plain_id (a_id A)) (r_accounts R) \<and>
     list_all (\<lambda>(A, P). plain_id (p_id P)) (kept_properties R) \<and>
     list_all (\<lambda>(A, P, V). plain_id (v_id V)) (entries R)"

section \<open>Concrete responses\<close>

text \<open>One account \<^verbatim>\<open>"1234"\<close> named \<^verbatim>\<open>"Acme"\<close>, one property \<^verbatim>\<open>"UA-1234-1"\<close>, one
  profile \<^verbatim>\<open>"5678"\<close> named \<^verbatim>\<open>"Main View"\<close>. The response is the object at address 0.\<close>

definition scenario :: "obj list" where
  "scenario =
    [ [''items'' \<mapsto> Ref 1],
      [''0'' \<mapsto> Ref 2],
      [''id'' \<mapsto> Str ''1234'', ''name'' \<mapsto> Str ''Acme'', ''webProperties'' \<mapsto> Ref 3],
      [''0'' \<mapsto> Ref 4],
      [''id'' \<mapsto> Str ''UA-1234-1'', ''profiles'' \<mapsto> Ref 5],
      [''0'' \<mapsto> Ref 6],
      [''id'' \<mapsto> Str ''5678'', ''name'' \<mapsto> Str ''Main View''] ]"

definition scenario_shape :: response_shape where
  "scenario_shape =
     ResponseShape 0 1
       [AccountShape 2 (Str ''1234'') 3
          [PropertyShape 4 (Str ''UA-1234-1'') (Some (5, [ProfileShape 6 (Str ''5678'')]))]]"

text \<open>The same account and property, the property's \<^verbatim>\<open>profiles\<close> being the empty
  array \<^verbatim>\<open>[]\<close> (the object at address 5).\<close>

definition empty_profiles :: "obj list" where
  "empty_profiles =
    [ [''items'' \<mapsto> Ref 1],
      [''0'' \<mapsto> Ref 2],
      [''id'' \<mapsto> Str ''1234'', ''name'' \<mapsto> Str ''Acme'', ''webProperties'' \<mapsto> Ref 3],
      [''0'' \<mapsto> Ref 4],
      [''id'' \<mapsto> Str ''UA-1234-1'', ''profiles'' \<mapsto> Ref 5],
      Map.empty ]"

text \<open>The same account and property, the property having no \<^verbatim>\<open>profiles\<close> field.\<close>

definition absent_profiles :: "obj list" where
  "absent_profiles =
    [ [''items'' \<mapsto> Ref 1],
      [''0'' \<mapsto> Ref 2],
      [''id'' \<mapsto> Str ''1234'', ''name'' \<mapsto> Str ''Acme'', ''webProperties'' \<mapsto> Ref 3],
      [''0'' \<mapsto> Ref 4],
      [''id'' \<mapsto> Str ''UA-1234-1''] ]"


text \<open>Two accounts with the identifier \<^verbatim>\<open>"1234"\<close>: the first (address 2) has the
  property and the profile of the scenario, the second (address 7) has an empty
  \<^verbatim>\<open>webProperties\<close> array.\<close>

definition duplicate_accounts :: "obj list" where
  "duplicate_accounts =
    [ [''items'' \<mapsto> Ref 1],
      [''0'' \<mapsto> Ref 2, ''1'' \<mapsto> Ref 7],
      [''id'' \<mapsto> Str ''1234'', ''name'' \<mapsto> Str ''Acme'', ''webProperties'' \<mapsto> Ref 3],
      [''0'' \<mapsto> Ref 4],
      [''id'' \<mapsto> Str ''UA-1234-1'', ''profiles'' \<mapsto> Ref 5],
      [''0'' \<mapsto> Ref 6],
      [''id'' \<mapsto> Str ''5678'', ''name'' \<mapsto> Str ''Main View''],
      [''id'' \<mapsto> Str ''1234'', ''name'' \<mapsto> Str ''Acme Two'', ''webProperties'' \<mapsto> Ref 8],
      Map.empty ]"

definition duplicate_shape :: response_shape where
  "duplicate_shape =
     ResponseShape 0 1
       [AccountShape 2 (Str ''1234'') 3
          [PropertyShape 4 (Str ''UA-1234-1'') (Some (5, [ProfileShape 6 (Str ''5678'')]))],
        AccountShape 7 (Str ''1234'') 8 []]"

text \<open>The state that the build reaches on the two accounts: the tree holds the second
  account, the index the three entries of the first account's property and profile, and
  the first account and its property have got their child entries.\<close>

definition duplicate_accounts_built :: state where
  "duplicate_accounts_built =
     (loaded duplicate_accounts)
       \<lparr>accountTree := [''1234'' \<mapsto> Ref 7],
        entityIndex := [''apUA-1234-1'' \<mapsto> Str ''1234'', ''av5678'' \<mapsto> Str ''1234'',
          ''pv5678'' \<mapsto> Str ''UA-1234-1''],
        heap := (heap (loaded duplicate_accounts))
          (2 := (heap (loaded duplicate_accounts) 2)(''UA-1234-1'' \<mapsto> Ref 4),
           4 := (heap (loaded duplicate_accounts) 4)(''5678'' \<mapsto> Ref 6))\<rparr>"

text \<open>The scenario's response with a falsy entry and a further record in each sequence:
  \<^verbatim>\<open>items = [account, null, late]\<close>, the account's
  \<^verbatim>\<open>webProperties = [property, null, lateProperty]\<close> and the property's
  \<^verbatim>\<open>profiles = [profile, undefined, lateProfile]\<close>.\<close>

definition null_entries :: "obj list" where
  "null_entries =
    [ [''items'' \<mapsto> Ref 1],
      [''0'' \<mapsto> Ref 2, ''1'' \<mapsto> Null, ''2'' \<mapsto> Ref 7],
      [''id'' \<mapsto> Str ''1234'', ''name'' \<mapsto> Str ''Acme'', ''webProperties'' \<mapsto> Ref 3],
      [''0'' \<mapsto> Ref 4, ''1'' \<mapsto> Null, ''2'' \<mapsto> Ref 9],
      [''id'' \<mapsto> Str ''UA-1234-1'', ''profiles'' \<mapsto> Ref 5],
      [''0'' \<mapsto> Ref 6, ''1'' \<mapsto> Undefined, ''2'' \<mapsto> Ref 10],
      [''id'' \<mapsto> Str ''5678'', ''name'' \<mapsto> Str ''Main View''],
      [''id'' \<mapsto> Str ''9999'', ''name'' \<mapsto> Str ''Late'', ''webProperties'' \<mapsto> Ref 8],
      Map.empty,
      [''id'' \<mapsto> Str ''UA-9999-1'', ''profiles'' \<mapsto> Ref 11],
      [''id'' \<mapsto> Str ''9998'', ''name'' \<mapsto> Str ''Late View''],
      [''0'' \<mapsto> Ref 12],
      [''id'' \<mapsto> Str ''7777''] ]"




text \<open>Two accounts with the identifier \<^verbatim>\<open>"1234"\<close>, the first of which has no
  \<^verbatim>\<open>webProperties\<close> field.\<close>

definition duplicate_partial :: "obj list" where
  "duplicate_partial =
    [ [''items'' \<mapsto> Ref 1],
      [''0'' \<mapsto> Ref 2, ''1'' \<mapsto> Ref 3],
      [''id'' \<mapsto> Str ''1234'', ''name'' \<mapsto> Str ''Acme''],
      [''id'' \<mapsto> Str ''1234'', ''name'' \<mapsto> Str ''Acme Two'', ''webProperties'' \<mapsto> Ref 4],
      Map.empty ]"

text \<open>A property whose identifier is \<^verbatim>\<open>"webProperties"\<close>, with a profile \<^verbatim>\<open>"0"\<close>
  that has a \<^verbatim>\<open>profiles\<close> array of its own; the states that a first and a second build
  reach, as the assignments they perform.\<close>

definition collision :: "obj list" where
  "collision =
    [ [''items'' \<mapsto> Ref 1],
      [''0'' \<mapsto> Ref 2],
      [''id'' \<mapsto> Str ''1234'', ''webProperties'' \<mapsto> Ref 3],
      [''0'' \<mapsto> Ref 4],
      [''id'' \<mapsto> Str ''webProperties'', ''profiles'' \<mapsto> Ref 5],
      [''0'' \<mapsto> Ref 6],
      [''id'' \<mapsto> Str ''0'', ''profiles'' \<mapsto> Ref 7],
      [''0'' \<mapsto> Ref 8],
      [''id'' \<mapsto> Str ''77''] ]"

definition collision_built :: state where
  "collision_built =
     apply_writes
       [WTree ''1234'' (Ref 2),
        WHeap 2 ''webProperties'' (Ref 4), WIndex ''apwebProperties'' (Str ''1234''),
        WHeap 4 ''0'' (Ref 6), WIndex ''av0'' (Str ''1234''), WIndex ''pv0'' (Str ''webProperties'')]
       (loaded collision)"

definition collision_rebuilt :: state where
  "collision_rebuilt =
     apply_writes
       [WTree ''1234'' (Ref 2),
        WHeap 2 ''0'' (Ref 6), WIndex ''ap0'' (Str ''1234''),
        WHeap 6 ''77'' (Ref 8), WIndex ''av77'' (Str ''1234''), WIndex ''pv77'' (Str ''0'')]
       collision_built"

text \<open>\<^verbatim>\<open>items = [account, null, late, later]\<close>, where \<^verbatim>\<open>late\<close> has the identifier
  of \<^verbatim>\<open>account\<close> and \<^verbatim>\<open>later\<close> the identifier \<^verbatim>\<open>"constructor"\<close>.\<close>

definition null_then_known :: "obj list" where
  "null_then_known =
    [ [''items'' \<mapsto> Ref 1],
      [''0'' \<mapsto> Ref 2, ''1'' \<mapsto> Null, ''2'' \<mapsto> Ref 4, ''3'' \<mapsto> Ref 6],
      [''id'' \<mapsto> Str ''1234'', ''name'' \<mapsto> Str ''Acme'', ''webProperties'' \<mapsto> Ref 3],
      Map.empty,
      [''id'' \<mapsto> Str ''1234'', ''name'' \<mapsto> Str ''Late'', ''webProperties'' \<mapsto> Ref 5],
      Map.empty,
      [''id'' \<mapsto> Str ''constructor'', ''name'' \<mapsto> Str ''Later'', ''webProperties'' \<mapsto> Ref 7],
      Map.empty ]"

section \<open>Evaluation\<close>

lemma dec_small: "dec 0 = ''0''" "dec (Suc 0) = ''1''" "dec (Suc (Suc 0)) = ''2''"
  by (simp_all add: dec.simps)

lemmas build_eval = loaded_def lookup_def inherited_names_def tree_put_account_def tree_put_property_def
  index_put_def tree_put_profile_def profile_body_def property_body_def account_body_def
  buildAccountTreeIndex_def ACCOUNT_PREFIX_def PROPERTY_PREFIX_def PROFILE_PREFIX_def
  accounts_loop.simps properties_loop.simps profiles_loop.simps dec_small

lemmas lookup_eval = getEntityId_def getAccount_def getProperty'_def
  getAccountByPropertyId_def getAccountByProfileId_def getPropertyByProfileId_def
  getProperty_def getProfile_def new_object_def field_def empty_object_def after_def
  lookup_def inherited_names_def ACCOUNT_PREFIX_def PROPERTY_PREFIX_def PROFILE_PREFIX_def

lemmas shape_eval = holds_def wf_shape_def response_at_def account_at_def property_at_def
  profile_at_def seq_at_def response_others_def property_others_def all_properties_def
  all_profiles_def profiles_of_def unique_ids_def plain_ids_def kept_properties_def
  entries_def plain_id_def loaded_def lookup_def inherited_names_def dec_small

section \<open>Assignments that keep the shape\<close>

lemma lookup_upd [simp]: "lookup (m(k \<mapsto> v)) k' = (if k' = k then v else lookup m k')"
  by (simp add: lookup_def)

lemma apply_writes_simps [simp]:
  "apply_writes [] s = s"
  "apply_writes (w # ws) s = apply_writes ws (apply_write w s)"
  "apply_writes (ws @ ws') s = apply_writes ws' (apply_writes ws s)"
  by (simp_all add: apply_writes_def)

lemma all_properties_mem: "P \<in> set (all_properties R) \<longleftrightarrow> (\<exists>A \<in> set (r_accounts R). P \<in> set (a_properties A))"
  by (auto simp: all_properties_def)

lemma all_profiles_mem: "V \<in> set (all_profiles R) \<longleftrightarrow> (\<exists>P \<in> set (all_properties R). V \<in> set (profiles_of P))"
  by (auto simp: all_profiles_def)

lemma profiles_of_Some: "p_profiles P = Some (arr, vs) \<Longrightarrow> profiles_of P = vs"
  by (simp add: profiles_of_def)

lemma property_others_Some:
  "p_profiles P = Some (arr, vs) \<Longrightarrow> property_others P = arr # map v_addr vs"
  by (simp add: property_others_def)

lemma response_others_mem:
  "P \<in> set (all_properties R) \<Longrightarrow> y \<in> set (property_others P) \<Longrightarrow> y \<in> set (response_others R)"
  by (auto simp: response_others_def)

lemma wf_others:
  "wf_shape R \<Longrightarrow> y \<in> set (response_others R) \<Longrightarrow>
   y \<notin> a_addr ` set (r_accounts R) \<and> y \<notin> p_addr ` set (all_properties R)"
  unfolding wf_shape_def by blast

lemma all_profiles_memI:
  "P \<in> set (all_properties R) \<Longrightarrow> p_profiles P = Some (arr, vs) \<Longrightarrow> V \<in> set vs \<Longrightarrow>
   V \<in> set (all_profiles R)"
  unfolding all_profiles_mem using profiles_of_Some by fastforce

lemma others_unwritten:
  assumes "wf_shape R" "ok_write R (WHeap x k v)" "y \<in> set (response_others R)"
  shows "x \<noteq> y"
  using assms by (auto simp: wf_shape_def ok_write_def)

lemma seq_at_write:
  "x \<noteq> arr \<Longrightarrow> seq_at (h(x := m)) arr xs = seq_at h arr xs"
  by (simp add: seq_at_def)

lemma profile_at_write:
  "x \<noteq> v_addr V \<Longrightarrow> profile_at (h(x := m)) V = profile_at h V"
  by (simp add: profile_at_def)

lemma property_at_write:
  assumes "wf_shape R" "ok_write R (WHeap x k v)" "P \<in> set (all_properties R)"
  shows "property_at ((h)(x := (h x)(k \<mapsto> v))) P = property_at h P"
proof -
  define h' where "h' = h(x := (h x)(k \<mapsto> v))"
  have others: "\<And>y. y \<in> set (property_others P) \<Longrightarrow> x \<noteq> y"
    using others_unwritten[OF assms(1,2)] assms(3) by (auto simp: response_others_def)
  have key: "x = p_addr P \<Longrightarrow> k \<noteq> ''id'' \<and> k \<noteq> ''profiles''"
    using assms by (auto simp: wf_shape_def ok_write_def)
  have lk: "lookup (h' (p_addr P)) ''id'' = lookup (h (p_addr P)) ''id''"
    "lookup (h' (p_addr P)) ''profiles'' = lookup (h (p_addr P)) ''profiles''"
    using key by (auto simp: lookup_def h'_def)
  show ?thesis
  proof (cases "p_profiles P")
    case None
    then show ?thesis unfolding h'_def[symmetric] by (simp add: property_at_def lk)
  next
    case (Some q)
    obtain arr vs where q: "q = (arr, vs)" by (cases q)
    have 1: "seq_at h' arr (map v_addr vs) = seq_at h arr (map v_addr vs)"
      using others Some q by (simp add: property_others_def h'_def seq_at_write)
    have 2: "\<And>V. V \<in> set vs \<Longrightarrow> x \<noteq> v_addr V"
      using others Some q by (auto simp add: property_others_def)
    have 3: "list_all (profile_at h') vs = list_all (profile_at h) vs"
      using 2 by (auto simp: list_all_iff profile_at_write h'_def)
    show ?thesis unfolding h'_def[symmetric] using Some q 1 3 by (simp add: property_at_def lk)
  qed
qed

lemma account_at_write:
  assumes "wf_shape R" "ok_write R (WHeap x k v)" "A \<in> set (r_accounts R)"
  shows "account_at ((h)(x := (h x)(k \<mapsto> v))) A = account_at h A"
proof -
  define h' where "h' = h(x := (h x)(k \<mapsto> v))"
  have "x \<noteq> a_array A"
    using others_unwritten[OF assms(1,2)] assms(3) by (auto simp: response_others_def)
  then have 1: "seq_at h' (a_array A) (map p_addr (a_properties A)) =
      seq_at h (a_array A) (map p_addr (a_properties A))"
    by (simp add: h'_def seq_at_write)
  have key: "x = a_addr A \<Longrightarrow> k \<noteq> ''id'' \<and> k \<noteq> ''webProperties''"
    using assms by (auto simp: wf_shape_def ok_write_def)
  have lk: "lookup (h' (a_addr A)) ''id'' = lookup (h (a_addr A)) ''id''"
    "lookup (h' (a_addr A)) ''webProperties'' = lookup (h (a_addr A)) ''webProperties''"
    using key by (auto simp: lookup_def h'_def)
  have 3: "list_all (property_at h') (a_properties A) = list_all (property_at h) (a_properties A)"
    using property_at_write[OF assms(1,2)] assms(3)
    by (auto simp: list_all_iff all_properties_mem h'_def)
  show ?thesis unfolding h'_def[symmetric] using 1 3 by (simp add: account_at_def lk)
qed

lemma response_at_write:
  assumes "wf_shape R" "ok_write R (WHeap x k v)"
  shows "response_at ((h)(x := (h x)(k \<mapsto> v))) R = response_at h R"
proof -
  define h' where "h' = h(x := (h x)(k \<mapsto> v))"
  have ne: "x \<noteq> r_array R" "x \<noteq> r_addr R"
    using others_unwritten[OF assms(1,2)] by (auto simp: response_others_def)
  have 1: "seq_at h' (r_array R) (map a_addr (r_accounts R)) =
      seq_at h (r_array R) (map a_addr (r_accounts R))"
    using ne by (simp add: h'_def seq_at_write)
  have 2: "lookup (h' (r_addr R)) ''items'' = lookup (h (r_addr R)) ''items''"
    using ne by (simp add: h'_def)
  have 3: "list_all (account_at h') (r_accounts R) = list_all (account_at h) (r_accounts R)"
    using account_at_write[OF assms(1,2)] by (auto simp: list_all_iff h'_def)
  show ?thesis unfolding h'_def[symmetric] using 1 2 3 by (simp add: response_at_def)
qed

lemma holds_apply_write:
  assumes "holds s R" "ok_write R w"
  shows "holds (apply_write w s) R"
proof (cases w)
  case (WHeap x k v)
  then show ?thesis using assms response_at_write[of R x k v "heap s"] by (simp add: holds_def)
next
  case (WTree k v)
  then show ?thesis using assms by (simp add: holds_def)
next
  case (WIndex k v)
  then show ?thesis using assms by (simp add: holds_def)
qed

lemma holds_apply_writes:
  "holds s R \<Longrightarrow> \<forall>w \<in> set ws. ok_write R w \<Longrightarrow> holds (apply_writes ws s) R"
  unfolding apply_writes_def
  by (induction ws arbitrary: s) (simp_all add: holds_apply_write)

lemma holds_account: "holds s R \<Longrightarrow> A \<in> set (r_accounts R) \<Longrightarrow> account_at (heap s) A"
  by (simp add: holds_def response_at_def list_all_iff)

lemma holds_property:
  "holds s R \<Longrightarrow> A \<in> set (r_accounts R) \<Longrightarrow> P \<in> set (a_properties A) \<Longrightarrow> property_at (heap s) P"
  using holds_account[of s R A] by (simp add: account_at_def list_all_iff)

lemma holds_profile:
  "holds s R \<Longrightarrow> A \<in> set (r_accounts R) \<Longrightarrow> P \<in> set (a_properties A) \<Longrightarrow>
   p_profiles P = Some (arr, vs) \<Longrightarrow> V \<in> set vs \<Longrightarrow> profile_at (heap s) V"
  using holds_property[of s R A P] by (simp add: property_at_def list_all_iff)

lemma profile_writes_ok:
  assumes "wf_shape R" "A \<in> set (r_accounts R)" "P \<in> set (a_properties A)"
    "p_profiles P = Some (arr, vs)" "V \<in> set vs"
  shows "\<forall>w \<in> set (profile_writes A P V). ok_write R w"
proof -
  have "P \<in> set (all_properties R)" using assms by (auto simp: all_properties_mem)
  moreover from this have "V \<in> set (all_profiles R)"
    using assms all_profiles_memI by blast
  ultimately show ?thesis using assms(1)
    by (auto simp: profile_writes_def ok_write_def wf_shape_def)
qed

lemma property_writes_ok:
  assumes "wf_shape R" "A \<in> set (r_accounts R)" "P \<in> set (a_properties A)"
  shows "\<forall>w \<in> set (property_writes A P). ok_write R w"
proof (cases "p_profiles P")
  case None
  then show ?thesis by (simp add: property_writes_def)
next
  case (Some q)
  obtain arr vs where q: "q = (arr, vs)" by (cases q)
  have "P \<in> set (all_properties R)" using assms by (auto simp: all_properties_mem)
  then have "ok_write R (WHeap (a_addr A) (to_string (p_id P)) (Ref (p_addr P)))"
    using assms by (auto simp: ok_write_def wf_shape_def)
  then show ?thesis
    using profile_writes_ok[OF assms] Some q
    by (auto simp: property_writes_def ok_write_def)
qed

lemma account_writes_ok:
  assumes "wf_shape R" "A \<in> set (r_accounts R)"
  shows "\<forall>w \<in> set (account_writes A). ok_write R w"
  using property_writes_ok[OF assms] by (auto simp: account_writes_def ok_write_def)

lemma response_writes_ok: "wf_shape R \<Longrightarrow> \<forall>w \<in> set (response_writes R). ok_write R w"
  using account_writes_ok by (auto simp: response_writes_def)

lemma wf_account_property:
  assumes "wf_shape R" "A \<in> set (r_accounts R)" "P \<in> set (all_properties R)"
  shows "a_addr A \<noteq> p_addr P"
  using assms by (auto simp: wf_shape_def)

lemma wf_property_profile:
  assumes "wf_shape R" "P \<in> set (all_properties R)" "P' \<in> set (all_properties R)"
    "p_profiles P' = Some (arr, vs)" "V \<in> set vs"
  shows "p_addr P \<noteq> v_addr V" "p_addr P \<noteq> arr"
proof -
  have "v_addr V \<in> set (response_others R)" "arr \<in> set (response_others R)"
    using response_others_mem[OF assms(3)] property_others_Some[OF assms(4)] assms(5) by auto
  then show "p_addr P \<noteq> v_addr V" "p_addr P \<noteq> arr"
    using wf_others[OF assms(1)] assms(2) by (metis imageI)+
qed

lemma wf_profile_key:
  assumes "wf_shape R" "P \<in> set (all_properties R)" "p_profiles P = Some (arr, vs)" "V \<in> set vs"
  shows "to_string (v_id V) \<noteq> ''id''" "to_string (v_id V) \<noteq> ''profiles''"
proof -
  have "V \<in> set (all_profiles R)" using assms all_profiles_memI by blast
  then show "to_string (v_id V) \<noteq> ''id''" "to_string (v_id V) \<noteq> ''profiles''"
    using assms(1) by (auto simp: wf_shape_def)
qed

lemma wf_property_key:
  assumes "wf_shape R" "P \<in> set (all_properties R)"
  shows "to_string (p_id P) \<noteq> ''id''" "to_string (p_id P) \<noteq> ''webProperties''"
  using assms by (auto simp: wf_shape_def)

section \<open>The build on a response of known shape\<close>

text \<open>Each loop performs the assignments of the entries that are left, in order.\<close>

lemma profile_body_run:
  assumes h: "holds s R" and A: "A \<in> set (r_accounts R)" and P: "P \<in> set (a_properties A)"
    and ps: "p_profiles P = Some (arr, vs)" and V: "V \<in> set vs"
    and tree: "lookup (accountTree s) (to_string (a_id A)) = Ref (a_addr A)"
    and node: "lookup (heap s (a_addr A)) (to_string (p_id P)) = Ref (p_addr P)"
  shows "profile_body (Ref (a_addr A)) (Ref (p_addr P)) (Ref (v_addr V)) s =
         Done (apply_writes (profile_writes A P V) s)"
proof -
  have wf: "wf_shape R" using h by (simp add: holds_def)
  have PR: "P \<in> set (all_properties R)" using A P by (auto simp: all_properties_mem)
  have aid: "lookup (heap s (a_addr A)) ''id'' = a_id A"
    using holds_account[OF h A] by (simp add: account_at_def)
  have pid: "lookup (heap s (p_addr P)) ''id'' = p_id P"
    using holds_property[OF h A P] by (simp add: property_at_def)
  have vid: "lookup (heap s (v_addr V)) ''id'' = v_id V"
    using holds_profile[OF h A P ps V] by (simp add: profile_at_def)
  have ne: "a_addr A \<noteq> p_addr P" "v_addr V \<noteq> p_addr P"
    using wf_account_property[OF wf A PR] wf_property_profile(1)[OF wf PR PR ps V] by auto
  have key: "to_string (v_id V) \<noteq> ''id''" using wf_profile_key[OF wf PR ps V] by simp
  show ?thesis
    using ne key
    by (simp add: profile_body_def tree_put_profile_def index_put_def profile_writes_def
        tree node aid pid vid)
qed

lemma apply_write_tree:
  "\<forall>w \<in> set ws. \<forall>k v. w \<noteq> WTree k v \<Longrightarrow> accountTree (apply_writes ws s) = accountTree s"
proof (induction ws arbitrary: s)
  case (Cons w ws)
  then show ?case by (cases w) auto
qed simp

lemma no_tree_profile_writes: "\<forall>w \<in> set (profile_writes A P V). \<forall>k v. w \<noteq> WTree k v"
  by (simp add: profile_writes_def)

lemma no_tree_property_writes: "\<forall>w \<in> set (property_writes A P). \<forall>k v. w \<noteq> WTree k v"
  by (auto simp: property_writes_def profile_writes_def split: option.splits)

lemma no_tree_in_properties:
  "WTree k v \<notin> set (concat (map (property_writes A) Ps))"
  using no_tree_property_writes by fastforce

lemma profiles_loop_run:
  assumes A: "A \<in> set (r_accounts R)" and P: "P \<in> set (a_properties A)"
    and ps: "p_profiles P = Some (arr, vs)"
  shows "holds s R \<Longrightarrow> k \<le> length vs \<Longrightarrow>
     lookup (accountTree s) (to_string (a_id A)) = Ref (a_addr A) \<Longrightarrow>
     lookup (heap s (a_addr A)) (to_string (p_id P)) = Ref (p_addr P) \<Longrightarrow>
     profiles_loop (Ref (a_addr A)) (Ref (p_addr P)) k s =
       Some (Done (apply_writes (concat (map (profile_writes A P) (drop k vs))) s))"
proof (induction "length vs - k" arbitrary: k s)
  case 0
  then have k: "k = length vs" by simp
  have pa: "property_at (heap s) P" using holds_property[OF "0.prems"(1) A P] .
  then have "lookup (heap s (p_addr P)) ''profiles'' = Ref arr"
    "\<not> truthy (lookup (heap s arr) (dec (length vs)))"
    using ps by (simp_all add: property_at_def seq_at_def)
  then show ?case using k by (subst profiles_loop.simps) simp
next
  case (Suc n)
  then have k: "k < length vs" by simp
  let ?V = "vs ! k"
  let ?s' = "apply_writes (profile_writes A P ?V) s"
  have V: "?V \<in> set vs" using k by simp
  have wf: "wf_shape R" using Suc.prems(1) by (simp add: holds_def)
  have PR: "P \<in> set (all_properties R)" using A P by (auto simp: all_properties_mem)
  have pa: "property_at (heap s) P" using holds_property[OF Suc.prems(1) A P] .
  then have rd: "lookup (heap s (p_addr P)) ''profiles'' = Ref arr"
    "lookup (heap s arr) (dec k) = Ref (v_addr ?V)"
    using ps k by (simp_all add: property_at_def seq_at_def)
  have body: "profile_body (Ref (a_addr A)) (Ref (p_addr P)) (Ref (v_addr ?V)) s = Done ?s'"
    using profile_body_run[OF Suc.prems(1) A P ps V Suc.prems(3,4)] .
  have h': "holds ?s' R"
    using holds_apply_writes[OF Suc.prems(1) profile_writes_ok[OF wf A P ps V]] .
  have ne: "a_addr A \<noteq> p_addr P" using wf_account_property[OF wf A PR] .
  have tree': "lookup (accountTree ?s') (to_string (a_id A)) = Ref (a_addr A)"
    using Suc.prems(3) by (simp add: profile_writes_def)
  have node': "lookup (heap ?s' (a_addr A)) (to_string (p_id P)) = Ref (p_addr P)"
    using Suc.prems(4) ne by (simp add: profile_writes_def)
  have IH: "profiles_loop (Ref (a_addr A)) (Ref (p_addr P)) (Suc k) ?s' =
      Some (Done (apply_writes (concat (map (profile_writes A P) (drop (Suc k) vs))) ?s'))"
    using Suc.hyps(1)[of "Suc k" ?s'] Suc.hyps(2) k h' tree' node' by simp
  have dr: "drop k vs = ?V # drop (Suc k) vs" using k by (simp add: Cons_nth_drop_Suc)
  show ?case
    by (subst profiles_loop.simps) (simp add: rd body IH dr)
qed

lemma property_body_run:
  assumes h: "holds s R" and A: "A \<in> set (r_accounts R)" and P: "P \<in> set (a_properties A)"
    and tree: "lookup (accountTree s) (to_string (a_id A)) = Ref (a_addr A)"
  shows "property_body (Ref (a_addr A)) (Ref (p_addr P)) s =
         Some (Done (apply_writes (property_writes A P) s))"
proof (cases "p_profiles P")
  case None
  then have "\<not> truthy (lookup (heap s (p_addr P)) ''profiles'')"
    using holds_property[OF h A P] by (simp add: property_at_def)
  then show ?thesis using None by (simp add: property_body_def property_writes_def)
next
  case (Some q)
  obtain arr vs where ps: "p_profiles P = Some (arr, vs)" using Some by (cases q) simp
  have wf: "wf_shape R" using h by (simp add: holds_def)
  have PR: "P \<in> set (all_properties R)" using A P by (auto simp: all_properties_mem)
  let ?ws = "[WHeap (a_addr A) (to_string (p_id P)) (Ref (p_addr P)),
              WIndex (ACCOUNT_PREFIX @ PROPERTY_PREFIX @ to_string (p_id P)) (a_id A)]"
  let ?s' = "apply_writes ?ws s"
  have aid: "lookup (heap s (a_addr A)) ''id'' = a_id A"
    using holds_account[OF h A] by (simp add: account_at_def)
  have pid: "lookup (heap s (p_addr P)) ''id'' = p_id P"
    and prof: "lookup (heap s (p_addr P)) ''profiles'' = Ref arr"
    using holds_property[OF h A P] ps by (simp_all add: property_at_def)
  have ne: "a_addr A \<noteq> p_addr P" using wf_account_property[OF wf A PR] .
  have key: "to_string (p_id P) \<noteq> ''id''" using wf_property_key[OF wf PR] by simp
  have stmts: "and_then (tree_put_property (Ref (a_addr A)) (Ref (p_addr P)) s)
        (index_put ACCOUNT_PREFIX PROPERTY_PREFIX (Ref (p_addr P)) (Ref (a_addr A))) = Done ?s'"
    using ne key by (simp add: tree_put_property_def index_put_def tree aid pid)
  have ok: "\<forall>w \<in> set ?ws. ok_write R w"
    using property_writes_ok[OF wf A P] ps by (simp add: property_writes_def)
  have h': "holds ?s' R" using holds_apply_writes[OF h ok] .
  have tree': "lookup (accountTree ?s') (to_string (a_id A)) = Ref (a_addr A)"
    using tree by simp
  have node': "lookup (heap ?s' (a_addr A)) (to_string (p_id P)) = Ref (p_addr P)"
    by simp
  have loop: "profiles_loop (Ref (a_addr A)) (Ref (p_addr P)) 0 ?s' =
      Some (Done (apply_writes (concat (map (profile_writes A P) vs)) ?s'))"
    using profiles_loop_run[OF A P ps h' _ tree' node', of 0] by simp
  show ?thesis
    unfolding property_body_def
    by (simp add: prof stmts loop property_writes_def ps del: apply_writes_simps)
       (simp add: apply_writes_def)
qed

lemma properties_loop_run:
  assumes A: "A \<in> set (r_accounts R)"
  shows "holds s R \<Longrightarrow> w \<le> length (a_properties A) \<Longrightarrow>
     lookup (accountTree s) (to_string (a_id A)) = Ref (a_addr A) \<Longrightarrow>
     properties_loop (Ref (a_addr A)) w s =
       Some (Done (apply_writes (concat (map (property_writes A) (drop w (a_properties A)))) s))"
proof (induction "length (a_properties A) - w" arbitrary: w s)
  case 0
  then have w: "w = length (a_properties A)" by simp
  have "lookup (heap s (a_addr A)) ''webProperties'' = Ref (a_array A)"
    "\<not> truthy (lookup (heap s (a_array A)) (dec (length (a_properties A))))"
    using holds_account[OF "0.prems"(1) A] by (simp_all add: account_at_def seq_at_def)
  then show ?case using w by (subst properties_loop.simps) simp
next
  case (Suc n)
  then have w: "w < length (a_properties A)" by simp
  let ?P = "a_properties A ! w"
  let ?s' = "apply_writes (property_writes A ?P) s"
  have P: "?P \<in> set (a_properties A)" using w by simp
  have wf: "wf_shape R" using Suc.prems(1) by (simp add: holds_def)
  have rd: "lookup (heap s (a_addr A)) ''webProperties'' = Ref (a_array A)"
    "lookup (heap s (a_array A)) (dec w) = Ref (p_addr ?P)"
    using holds_account[OF Suc.prems(1) A] w by (simp_all add: account_at_def seq_at_def)
  have body: "property_body (Ref (a_addr A)) (Ref (p_addr ?P)) s = Some (Done ?s')"
    using property_body_run[OF Suc.prems(1) A P Suc.prems(3)] .
  have h': "holds ?s' R"
    using holds_apply_writes[OF Suc.prems(1) property_writes_ok[OF wf A P]] .
  have tree': "lookup (accountTree ?s') (to_string (a_id A)) = Ref (a_addr A)"
    using Suc.prems(3) apply_write_tree[OF no_tree_property_writes] by simp
  have IH: "properties_loop (Ref (a_addr A)) (Suc w) ?s' =
      Some (Done (apply_writes (concat (map (property_writes A) (drop (Suc w) (a_properties A)))) ?s'))"
    using Suc.hyps(1)[of "Suc w" ?s'] Suc.hyps(2) w h' tree' by simp
  have dr: "drop w (a_properties A) = ?P # drop (Suc w) (a_properties A)"
    using w by (simp add: Cons_nth_drop_Suc)
  show ?case
    by (subst properties_loop.simps) (simp add: rd body IH dr)
qed

lemma account_body_run:
  assumes h: "holds s R" and A: "A \<in> set (r_accounts R)"
  shows "account_body (Ref (a_addr A)) s = Some (Done (apply_writes (account_writes A) s))"
proof -
  let ?s' = "apply_write (WTree (to_string (a_id A)) (Ref (a_addr A))) s"
  have aid: "lookup (heap s (a_addr A)) ''id'' = a_id A"
    using holds_account[OF h A] by (simp add: account_at_def)
  have put: "tree_put_account (Ref (a_addr A)) s = Done ?s'"
    by (simp add: tree_put_account_def aid)
  have h': "holds ?s' R" using h by (simp add: holds_def)
  have loop: "properties_loop (Ref (a_addr A)) 0 ?s' =
      Some (Done (apply_writes (concat (map (property_writes A) (a_properties A))) ?s'))"
    using properties_loop_run[OF A h', of 0] by simp
  show ?thesis
    unfolding account_body_def by (simp add: put loop account_writes_def del: apply_write.simps)
qed

lemma accounts_loop_run:
  "holds s R \<Longrightarrow> i \<le> length (r_accounts R) \<Longrightarrow>
     accounts_loop (Ref (r_addr R)) i s =
       Some (Done (apply_writes (concat (map account_writes (drop i (r_accounts R)))) s))"
proof (induction "length (r_accounts R) - i" arbitrary: i s)
  case 0
  then have i: "i = length (r_accounts R)" by simp
  have "lookup (heap s (r_addr R)) ''items'' = Ref (r_array R)"
    "\<not> truthy (lookup (heap s (r_array R)) (dec (length (r_accounts R))))"
    using "0.prems"(1) by (simp_all add: holds_def response_at_def seq_at_def)
  then show ?case using i by (subst accounts_loop.simps) simp
next
  case (Suc n)
  then have i: "i < length (r_accounts R)" by simp
  let ?A = "r_accounts R ! i"
  let ?s' = "apply_writes (account_writes ?A) s"
  have A: "?A \<in> set (r_accounts R)" using i by simp
  have wf: "wf_shape R" using Suc.prems(1) by (simp add: holds_def)
  have rd: "lookup (heap s (r_addr R)) ''items'' = Ref (r_array R)"
    "lookup (heap s (r_array R)) (dec i) = Ref (a_addr ?A)"
    using Suc.prems(1) i by (simp_all add: holds_def response_at_def seq_at_def)
  have body: "account_body (Ref (a_addr ?A)) s = Some (Done ?s')"
    using account_body_run[OF Suc.prems(1) A] .
  have h': "holds ?s' R"
    using holds_apply_writes[OF Suc.prems(1) account_writes_ok[OF wf A]] .
  have IH: "accounts_loop (Ref (r_addr R)) (Suc i) ?s' =
      Some (Done (apply_writes (concat (map account_writes (drop (Suc i) (r_accounts R)))) ?s'))"
    using Suc.hyps(1)[of "Suc i" ?s'] Suc.hyps(2) i h' by simp
  have dr: "drop i (r_accounts R) = ?A # drop (Suc i) (r_accounts R)"
    using i by (simp add: Cons_nth_drop_Suc)
  show ?case
    by (subst accounts_loop.simps) (simp add: rd body IH dr)
qed

lemma build_run:
  assumes "holds s R"
  shows "buildAccountTreeIndex (Ref (r_addr R)) s = Some (Done (apply_writes (response_writes R) s))"
    and "holds (apply_writes (response_writes R) s) R"
  using accounts_loop_run[OF assms, of 0] holds_apply_writes[OF assms response_writes_ok] assms
  by (simp_all add: buildAccountTreeIndex_def response_writes_def holds_def)

section \<open>What a list of assignments leaves behind\<close>

lemma apply_writes_snoc: "apply_writes (ws @ [w]) s = apply_write w (apply_writes ws s)"
  by simp

lemma tree_untouched:
  "\<forall>v. WTree k v \<notin> set ws \<Longrightarrow> accountTree (apply_writes ws s) k = accountTree s k"
proof (induction ws arbitrary: s)
  case (Cons w ws)
  then show ?case by (cases w) auto
qed simp

lemma index_untouched:
  "\<forall>v. WIndex k v \<notin> set ws \<Longrightarrow> entityIndex (apply_writes ws s) k = entityIndex s k"
proof (induction ws arbitrary: s)
  case (Cons w ws)
  then show ?case by (cases w) auto
qed simp

lemma heap_untouched:
  "\<forall>v. WHeap a k v \<notin> set ws \<Longrightarrow> heap (apply_writes ws s) a k = heap s a k"
proof (induction ws arbitrary: s)
  case (Cons w ws)
  then show ?case by (cases w) auto
qed simp

lemma tree_agree:
  "WTree k v \<in> set ws \<Longrightarrow> \<forall>v'. WTree k v' \<in> set ws \<longrightarrow> v' = v \<Longrightarrow>
   accountTree (apply_writes ws s) k = Some v"
proof (induction ws arbitrary: s)
  case Nil
  then show ?case by simp
next
  case (Cons w ws)
  show ?case
  proof (cases "\<exists>v'. WTree k v' \<in> set ws")
    case True
    then obtain v' where v': "WTree k v' \<in> set ws" by blast
    then have "v' = v" using Cons.prems(2) by simp
    then have "WTree k v \<in> set ws" using v' by simp
    moreover have "\<forall>v'. WTree k v' \<in> set ws \<longrightarrow> v' = v" using Cons.prems(2) by simp
    ultimately have "accountTree (apply_writes ws (apply_write w s)) k = Some v"
      by (rule Cons.IH)
    then show ?thesis by simp
  next
    case False
    then have "accountTree (apply_writes ws (apply_write w s)) k = accountTree (apply_write w s) k"
      by (simp add: tree_untouched)
    moreover have "w = WTree k v" using Cons.prems(1) False by auto
    ultimately show ?thesis by simp
  qed
qed

lemma index_agree:
  "WIndex k v \<in> set ws \<Longrightarrow> \<forall>v'. WIndex k v' \<in> set ws \<longrightarrow> v' = v \<Longrightarrow>
   entityIndex (apply_writes ws s) k = Some v"
proof (induction ws arbitrary: s)
  case Nil
  then show ?case by simp
next
  case (Cons w ws)
  show ?case
  proof (cases "\<exists>v'. WIndex k v' \<in> set ws")
    case True
    then obtain v' where v': "WIndex k v' \<in> set ws" by blast
    then have "v' = v" using Cons.prems(2) by simp
    then have "WIndex k v \<in> set ws" using v' by simp
    moreover have "\<forall>v'. WIndex k v' \<in> set ws \<longrightarrow> v' = v" using Cons.prems(2) by simp
    ultimately have "entityIndex (apply_writes ws (apply_write w s)) k = Some v"
      by (rule Cons.IH)
    then show ?thesis by simp
  next
    case False
    then have "entityIndex (apply_writes ws (apply_write w s)) k = entityIndex (apply_write w s) k"
      by (simp add: index_untouched)
    moreover have "w = WIndex k v" using Cons.prems(1) False by auto
    ultimately show ?thesis by simp
  qed
qed

lemma heap_agree:
  "WHeap a k v \<in> set ws \<Longrightarrow> \<forall>v'. WHeap a k v' \<in> set ws \<longrightarrow> v' = v \<Longrightarrow>
   heap (apply_writes ws s) a k = Some v"
proof (induction ws arbitrary: s)
  case Nil
  then show ?case by simp
next
  case (Cons w ws)
  show ?case
  proof (cases "\<exists>v'. WHeap a k v' \<in> set ws")
    case True
    then obtain v' where v': "WHeap a k v' \<in> set ws" by blast
    then have "v' = v" using Cons.prems(2) by simp
    then have "WHeap a k v \<in> set ws" using v' by simp
    moreover have "\<forall>v'. WHeap a k v' \<in> set ws \<longrightarrow> v' = v" using Cons.prems(2) by simp
    ultimately have "heap (apply_writes ws (apply_write w s)) a k = Some v"
      by (rule Cons.IH)
    then show ?thesis by simp
  next
    case False
    then have "heap (apply_writes ws (apply_write w s)) a k = heap (apply_write w s) a k"
      by (simp add: heap_untouched)
    moreover have "w = WHeap a k v" using Cons.prems(1) False by auto
    ultimately show ?thesis by simp
  qed
qed

lemma nxt_apply_writes [simp]: "nxt (apply_writes ws s) = nxt s"
proof (induction ws arbitrary: s)
  case (Cons w ws)
  then show ?case by (cases w) auto
qed simp

lemma overlay_empty: "overlay Map.empty Map.empty (\<lambda>_. Map.empty) s = s"
  by (simp add: overlay_def)

lemma apply_write_overlay:
  "apply_write (WTree k v) (overlay T I H s) = overlay (T(k \<mapsto> v)) I H s"
  "apply_write (WIndex k v) (overlay T I H s) = overlay T (I(k \<mapsto> v)) H s"
  "apply_write (WHeap x k v) (overlay T I H s) = overlay T I (H(x := (H x)(k \<mapsto> v))) s"
  by (simp_all add: overlay_def fun_eq_iff)

lemma apply_writes_overlay: "\<exists>T I H. \<forall>s. apply_writes ws s = overlay T I H s"
proof (induction ws rule: rev_induct)
  case Nil
  have "\<forall>s. apply_writes [] s = overlay Map.empty Map.empty (\<lambda>_. Map.empty) s"
    by (simp add: overlay_empty)
  then show ?case by blast
next
  case (snoc w ws)
  then obtain T I H where eq: "\<And>s. apply_writes ws s = overlay T I H s"
    by blast
  have "\<exists>T' I' H'. \<forall>s. apply_write w (overlay T I H s) = overlay T' I' H' s"
    by (cases w) (simp_all only: apply_write_overlay, blast+)
  then show ?case by (simp only: apply_writes_snoc eq)
qed

lemma map_add_twice: "(m ++ T) ++ T = m ++ (T :: 'a \<rightharpoonup> 'b)"
  by (simp add: map_add_def fun_eq_iff split: option.splits)

lemma overlay_idem: "overlay T I H (overlay T I H s) = overlay T I H s"
  by (simp add: overlay_def map_add_twice)

lemma apply_writes_idem: "apply_writes ws (apply_writes ws s) = apply_writes ws s"
proof -
  obtain T I H where eq: "\<And>s. apply_writes ws s = overlay T I H s"
    using apply_writes_overlay[of ws] by blast
  show ?thesis by (simp only: eq overlay_idem)
qed

section \<open>The assignments of a response\<close>

lemma kept_mem:
  "(A, P) \<in> set (kept_properties R) \<longleftrightarrow>
     A \<in> set (r_accounts R) \<and> P \<in> set (a_properties A) \<and> p_profiles P \<noteq> None"
  by (auto simp: kept_properties_def)

lemma entries_mem:
  "(A, P, V) \<in> set (entries R) \<longleftrightarrow>
     (A, P) \<in> set (kept_properties R) \<and> V \<in> set (profiles_of P)"
  by (auto simp: entries_def)

lemma profile_writes_mem:
  "w \<in> set (profile_writes A P V) \<longleftrightarrow>
     w = WHeap (p_addr P) (to_string (v_id V)) (Ref (v_addr V)) \<or>
     w = WIndex (ACCOUNT_PREFIX @ PROFILE_PREFIX @ to_string (v_id V)) (a_id A) \<or>
     w = WIndex (PROPERTY_PREFIX @ PROFILE_PREFIX @ to_string (v_id V)) (p_id P)"
  by (auto simp: profile_writes_def)

lemma property_writes_mem:
  "w \<in> set (property_writes A P) \<longleftrightarrow>
     p_profiles P \<noteq> None \<and>
     (w = WHeap (a_addr A) (to_string (p_id P)) (Ref (p_addr P)) \<or>
      w = WIndex (ACCOUNT_PREFIX @ PROPERTY_PREFIX @ to_string (p_id P)) (a_id A) \<or>
      (\<exists>V \<in> set (profiles_of P). w \<in> set (profile_writes A P V)))"
  by (cases "p_profiles P") (auto simp: property_writes_def profiles_of_def)

lemma account_writes_mem:
  "w \<in> set (account_writes A) \<longleftrightarrow>
     w = WTree (to_string (a_id A)) (Ref (a_addr A)) \<or>
     (\<exists>P \<in> set (a_properties A). w \<in> set (property_writes A P))"
  by (auto simp: account_writes_def)

lemma response_writes_mem:
  "w \<in> set (response_writes R) \<longleftrightarrow>
     (\<exists>A \<in> set (r_accounts R). w = WTree (to_string (a_id A)) (Ref (a_addr A))) \<or>
     (\<exists>(A, P) \<in> set (kept_properties R).
        w = WHeap (a_addr A) (to_string (p_id P)) (Ref (p_addr P)) \<or>
        w = WIndex (ACCOUNT_PREFIX @ PROPERTY_PREFIX @ to_string (p_id P)) (a_id A)) \<or>
     (\<exists>(A, P, V) \<in> set (entries R). w \<in> set (profile_writes A P V))"
  (is "?L \<longleftrightarrow> ?R")
proof
  assume ?L
  then obtain A where A: "A \<in> set (r_accounts R)" and w: "w \<in> set (account_writes A)"
    by (auto simp: response_writes_def)
  show ?R
  proof (cases "w = WTree (to_string (a_id A)) (Ref (a_addr A))")
    case True
    then show ?thesis using A by blast
  next
    case False
    then obtain P where P: "P \<in> set (a_properties A)" and wP: "w \<in> set (property_writes A P)"
      using w by (auto simp: account_writes_mem)
    then have k: "(A, P) \<in> set (kept_properties R)"
      using A by (simp add: kept_mem property_writes_mem)
    from wP consider
      "w = WHeap (a_addr A) (to_string (p_id P)) (Ref (p_addr P)) \<or>
       w = WIndex (ACCOUNT_PREFIX @ PROPERTY_PREFIX @ to_string (p_id P)) (a_id A)"
      | V where "V \<in> set (profiles_of P)" "w \<in> set (profile_writes A P V)"
      by (auto simp: property_writes_mem)
    then show ?thesis
    proof cases
      case 1
      then show ?thesis using k by blast
    next
      case 2
      then have "(A, P, V) \<in> set (entries R)" using k by (simp add: entries_mem)
      then show ?thesis using 2 by blast
    qed
  qed
next
  assume ?R
  then consider A where "A \<in> set (r_accounts R)" "w = WTree (to_string (a_id A)) (Ref (a_addr A))"
    | A P where "(A, P) \<in> set (kept_properties R)"
        "w = WHeap (a_addr A) (to_string (p_id P)) (Ref (p_addr P)) \<or>
         w = WIndex (ACCOUNT_PREFIX @ PROPERTY_PREFIX @ to_string (p_id P)) (a_id A)"
    | A P V where "(A, P, V) \<in> set (entries R)" "w \<in> set (profile_writes A P V)"
    by blast
  then show ?L
  proof cases
    case 1
    then show ?thesis by (auto simp: response_writes_def account_writes_mem)
  next
    case 2
    then have "A \<in> set (r_accounts R)" "P \<in> set (a_properties A)" "w \<in> set (property_writes A P)"
      by (auto simp: kept_mem property_writes_mem)
    then show ?thesis by (auto simp: response_writes_def account_writes_mem)
  next
    case 3
    then have "A \<in> set (r_accounts R)" "P \<in> set (a_properties A)" "w \<in> set (property_writes A P)"
      by (auto simp: entries_mem kept_mem property_writes_mem)
    then show ?thesis by (auto simp: response_writes_def account_writes_mem)
  qed
qed

lemma distinct_map_eq:
  "distinct (map f xs) \<Longrightarrow> x \<in> set xs \<Longrightarrow> y \<in> set xs \<Longrightarrow> f x = f y \<Longrightarrow> x = y"
  by (auto simp: distinct_map inj_on_def)

lemma prefix_ne [simp]:
  "ACCOUNT_PREFIX @ PROPERTY_PREFIX @ x \<noteq> ACCOUNT_PREFIX @ PROFILE_PREFIX @ y"
  "ACCOUNT_PREFIX @ PROPERTY_PREFIX @ x \<noteq> PROPERTY_PREFIX @ PROFILE_PREFIX @ y"
  "ACCOUNT_PREFIX @ PROFILE_PREFIX @ x \<noteq> PROPERTY_PREFIX @ PROFILE_PREFIX @ y"
  "ACCOUNT_PREFIX @ PROFILE_PREFIX @ y \<noteq> ACCOUNT_PREFIX @ PROPERTY_PREFIX @ x"
  "PROPERTY_PREFIX @ PROFILE_PREFIX @ y \<noteq> ACCOUNT_PREFIX @ PROPERTY_PREFIX @ x"
  "PROPERTY_PREFIX @ PROFILE_PREFIX @ y \<noteq> ACCOUNT_PREFIX @ PROFILE_PREFIX @ x"
  "PROPERTY_PREFIX @ x \<noteq> PROFILE_PREFIX @ y"
  "PROFILE_PREFIX @ y \<noteq> PROPERTY_PREFIX @ x"
  by (simp_all add: ACCOUNT_PREFIX_def PROPERTY_PREFIX_def PROFILE_PREFIX_def)

lemma built_tree:
  assumes u: "unique_ids R" and A: "A \<in> set (r_accounts R)"
  shows "accountTree (apply_writes (response_writes R) s) (to_string (a_id A)) = Some (Ref (a_addr A))"
proof (rule tree_agree)
  show "WTree (to_string (a_id A)) (Ref (a_addr A)) \<in> set (response_writes R)"
    using A by (auto simp: response_writes_mem)
  show "\<forall>v'. WTree (to_string (a_id A)) v' \<in> set (response_writes R) \<longrightarrow> v' = Ref (a_addr A)"
  proof (intro allI impI)
    fix v' assume "WTree (to_string (a_id A)) v' \<in> set (response_writes R)"
    then obtain A' where A': "A' \<in> set (r_accounts R)" "to_string (a_id A) = to_string (a_id A')"
      "v' = Ref (a_addr A')"
      by (auto simp: response_writes_mem profile_writes_mem)
    then have "A' = A"
      using distinct_map_eq[of "\<lambda>A. to_string (a_id A)" "r_accounts R" A' A] u A
      by (simp add: unique_ids_def)
    then show "v' = Ref (a_addr A)" using A' by simp
  qed
qed

lemma built_index_ap:
  assumes u: "unique_ids R" and K: "(A, P) \<in> set (kept_properties R)"
  shows "entityIndex (apply_writes (response_writes R) s)
           (ACCOUNT_PREFIX @ PROPERTY_PREFIX @ to_string (p_id P)) = Some (a_id A)"
proof (rule index_agree)
  let ?k = "ACCOUNT_PREFIX @ PROPERTY_PREFIX @ to_string (p_id P)"
  show "WIndex ?k (a_id A) \<in> set (response_writes R)"
    using K by (auto simp: response_writes_mem)
  show "\<forall>v'. WIndex ?k v' \<in> set (response_writes R) \<longrightarrow> v' = a_id A"
  proof (intro allI impI)
    fix v' assume "WIndex ?k v' \<in> set (response_writes R)"
    then obtain A' P' where K': "(A', P') \<in> set (kept_properties R)"
      "to_string (p_id P) = to_string (p_id P')" "v' = a_id A'"
      by (auto simp: response_writes_mem profile_writes_mem)
    then have "(A', P') = (A, P)"
      using distinct_map_eq[of "\<lambda>(A, P). to_string (p_id P)" "kept_properties R" "(A', P')" "(A, P)"] u K
      by (simp add: unique_ids_def)
    then show "v' = a_id A" using K' by simp
  qed
qed

lemma built_index_av:
  assumes u: "unique_ids R" and E: "(A, P, V) \<in> set (entries R)"
  shows "entityIndex (apply_writes (response_writes R) s)
           (ACCOUNT_PREFIX @ PROFILE_PREFIX @ to_string (v_id V)) = Some (a_id A)"
proof (rule index_agree)
  let ?k = "ACCOUNT_PREFIX @ PROFILE_PREFIX @ to_string (v_id V)"
  show "WIndex ?k (a_id A) \<in> set (response_writes R)"
    using E by (auto simp: response_writes_mem profile_writes_mem)
  show "\<forall>v'. WIndex ?k v' \<in> set (response_writes R) \<longrightarrow> v' = a_id A"
  proof (intro allI impI)
    fix v' assume "WIndex ?k v' \<in> set (response_writes R)"
    then obtain A' P' V' where E': "(A', P', V') \<in> set (entries R)"
      "to_string (v_id V) = to_string (v_id V')" "v' = a_id A'"
      by (auto simp: response_writes_mem profile_writes_mem)
    then have "(A', P', V') = (A, P, V)"
      using distinct_map_eq[of "\<lambda>(A, P, V). to_string (v_id V)" "entries R" "(A', P', V')" "(A, P, V)"] u E
      by (simp add: unique_ids_def)
    then show "v' = a_id A" using E' by simp
  qed
qed

lemma built_index_pv:
  assumes u: "unique_ids R" and E: "(A, P, V) \<in> set (entries R)"
  shows "entityIndex (apply_writes (response_writes R) s)
           (PROPERTY_PREFIX @ PROFILE_PREFIX @ to_string (v_id V)) = Some (p_id P)"
proof (rule index_agree)
  let ?k = "PROPERTY_PREFIX @ PROFILE_PREFIX @ to_string (v_id V)"
  show "WIndex ?k (p_id P) \<in> set (response_writes R)"
    using E by (auto simp: response_writes_mem profile_writes_mem)
  show "\<forall>v'. WIndex ?k v' \<in> set (response_writes R) \<longrightarrow> v' = p_id P"
  proof (intro allI impI)
    fix v' assume "WIndex ?k v' \<in> set (response_writes R)"
    then obtain A' P' V' where E': "(A', P', V') \<in> set (entries R)"
      "to_string (v_id V) = to_string (v_id V')" "v' = p_id P'"
      by (auto simp: response_writes_mem profile_writes_mem)
    then have "(A', P', V') = (A, P, V)"
      using distinct_map_eq[of "\<lambda>(A, P, V). to_string (v_id V)" "entries R" "(A', P', V')" "(A, P, V)"] u E
      by (simp add: unique_ids_def)
    then show "v' = p_id P" using E' by simp
  qed
qed

lemma built_node:
  assumes wf: "wf_shape R" and u: "unique_ids R" and K: "(A, P) \<in> set (kept_properties R)"
  shows "heap (apply_writes (response_writes R) s) (a_addr A) (to_string (p_id P)) =
           Some (Ref (p_addr P))"
proof (rule heap_agree)
  show "WHeap (a_addr A) (to_string (p_id P)) (Ref (p_addr P)) \<in> set (response_writes R)"
    using K by (auto simp: response_writes_mem)
  show "\<forall>v'. WHeap (a_addr A) (to_string (p_id P)) v' \<in> set (response_writes R) \<longrightarrow>
      v' = Ref (p_addr P)"
  proof (intro allI impI)
    fix v' assume "WHeap (a_addr A) (to_string (p_id P)) v' \<in> set (response_writes R)"
    then consider A' P' where "(A', P') \<in> set (kept_properties R)"
        "to_string (p_id P) = to_string (p_id P')" "v' = Ref (p_addr P')"
      | A' P' V' where "(A', P', V') \<in> set (entries R)" "a_addr A = p_addr P'"
      by (auto simp: response_writes_mem profile_writes_mem)
    then show "v' = Ref (p_addr P)"
    proof cases
      case 1
      then have "(A', P') = (A, P)"
        using distinct_map_eq[of "\<lambda>(A, P). to_string (p_id P)" "kept_properties R" "(A', P')" "(A, P)"] u K
        by (simp add: unique_ids_def)
      then show ?thesis using 1 by simp
    next
      case 2
      then have "P' \<in> set (all_properties R)" "A \<in> set (r_accounts R)"
        using K by (auto simp: entries_mem kept_mem all_properties_mem)
      then show ?thesis using wf_account_property[OF wf] 2 by blast
    qed
  qed
qed

section \<open>Lookups\<close>

lemma getAccount_hit:
  "accountTree s (to_string x) = Some (Ref a) \<Longrightarrow> getAccount x s = (Inr (Ref a), s)"
  by (simp add: getAccount_def lookup_def)

lemma getProperty'_hit:
  "accountTree s (to_string x) = Some (Ref a) \<Longrightarrow> heap s a (to_string y) = Some (Ref p) \<Longrightarrow>
   getProperty' x y s = (Inr (Ref p), s)"
  by (simp add: getProperty'_def lookup_def)

lemma getEntityId_str:
  "entityIndex s k = Some v \<Longrightarrow> plain_id v \<Longrightarrow> to_string (getEntityId k s) = to_string v"
  by (cases v) (auto simp: getEntityId_def lookup_def plain_id_def)

lemma get_prop_index [simp]: "get_prop (s\<lparr>entityIndex := e\<rparr>) x k = get_prop s x k"
  by (cases x) simp_all




section \<open>The concrete responses have their shapes\<close>

lemma scenario_holds: "holds (loaded scenario) scenario_shape"
  by (simp add: shape_eval scenario_def scenario_shape_def)

lemma scenario_ids: "unique_ids scenario_shape" "plain_ids scenario_shape"
  by (simp_all add: shape_eval scenario_shape_def)

lemma null_entries_holds: "holds (loaded null_entries) scenario_shape"
  by (simp add: shape_eval null_entries_def scenario_shape_def)

lemma duplicate_holds: "holds (loaded duplicate_accounts) duplicate_shape"
  by (simp add: shape_eval duplicate_accounts_def duplicate_shape_def less_Suc_eq)



lemma duplicate_ids: "plain_ids duplicate_shape"
  by (simp add: shape_eval duplicate_shape_def)

section \<open>The claims\<close>

text \<open>C1, at a property whose profile sequence is empty: the guard
  \<^verbatim>\<open>if (property.profiles)\<close> lets the empty array through, so the property is
  stored under its account, the index gets its account-of-property entry, and
  \<^verbatim>\<open>getProperty\<close> returns the property. A property that has no \<^verbatim>\<open>profiles\<close> field
  is skipped: nothing is stored under its account and the index gets no entry.\<close>

theorem empty_profiles_property_is_indexed:
  "after (buildAccountTreeIndex (Ref 0) (loaded empty_profiles)) (\<lambda>s.
     heap s 2 ''UA-1234-1'' = Some (Ref 4) \<and>
     entityIndex s ''apUA-1234-1'' = Some (Str ''1234'') \<and>
     fst (getProperty (Str ''UA-1234-1'') s) = Inr (Ref 4)) \<and>
   after (buildAccountTreeIndex (Ref 0) (loaded absent_profiles)) (\<lambda>s.
     heap s 2 ''UA-1234-1'' = None \<and>
     entityIndex s ''apUA-1234-1'' = None \<and>
     fst (getProperty (Str ''UA-1234-1'') s) = Inr Undefined)"
  by (simp add: build_eval lookup_eval empty_profiles_def absent_profiles_def)

text \<open>C2 as stated fails where two accounts share an identifier: the account at
  address 2 holds the property \<^verbatim>\<open>"UA-1234-1"\<close> with the profile \<^verbatim>\<open>"5678"\<close>, yet the
  property and the profile resolve to the later account at address 7, and the profile
  resolves to no property at all.\<close>

theorem duplicate_account_loses_its_properties:
  "buildAccountTreeIndex (Ref 0) (loaded duplicate_accounts) = Some (Done duplicate_accounts_built) \<and>
   fst (getAccountByPropertyId (Str ''UA-1234-1'') duplicate_accounts_built) = Inr (Ref 7) \<and>
   fst (getAccountByProfileId (Str ''5678'') duplicate_accounts_built) = Inr (Ref 7) \<and>
   empty_object (getPropertyByProfileId (Str ''5678'') duplicate_accounts_built)"
  by (simp add: build_eval lookup_eval duplicate_accounts_def duplicate_accounts_built_def)

text \<open>C2, amended: let the store hold a response of well-formed shape whose
  identifiers are strings (other than \<^verbatim>\<open>__proto__\<close>), unique within their kind.
  Then for every account \<open>A\<close> before the first falsy entry of \<^verbatim>\<open>items\<close>, every
  property \<open>P\<close> of \<open>A\<close> before the first falsy entry of \<^verbatim>\<open>webProperties\<close> that has a
  \<^verbatim>\<open>profiles\<close> array, and every profile \<open>V\<close> of \<open>P\<close> before the first falsy entry of
  that array, the build completes and \<^verbatim>\<open>getAccountByPropertyId(P.id)\<close> returns \<open>A\<close>,
  \<^verbatim>\<open>getAccountByProfileId(V.id)\<close> returns \<open>A\<close> and \<^verbatim>\<open>getPropertyByProfileId(V.id)\<close>
  returns \<open>P\<close>, the very objects of the response.\<close>

theorem ancestors_of_indexed_entities:
  assumes h: "holds s R" and u: "unique_ids R" and str: "plain_ids R"
    and A: "A \<in> set (r_accounts R)" and P: "P \<in> set (a_properties A)"
    and ps: "p_profiles P = Some (arr, vs)" and V: "V \<in> set vs"
  shows "after (buildAccountTreeIndex (Ref (r_addr R)) s) (\<lambda>s'.
      getAccountByPropertyId (p_id P) s' = (Inr (Ref (a_addr A)), s') \<and>
      getAccountByProfileId (v_id V) s' = (Inr (Ref (a_addr A)), s') \<and>
      getPropertyByProfileId (v_id V) s' = (Inr (Ref (p_addr P)), s'))"
proof -
  let ?s' = "apply_writes (response_writes R) s"
  have wf: "wf_shape R" using h by (simp add: holds_def)
  have K: "(A, P) \<in> set (kept_properties R)" using A P ps by (simp add: kept_mem)
  have E: "(A, P, V) \<in> set (entries R)"
    using K V ps by (simp add: entries_mem profiles_of_Some)
  have sa: "plain_id (a_id A)" and sp: "plain_id (p_id P)"
    using str A K by (auto simp: plain_ids_def list_all_iff)
  have t: "accountTree ?s' (to_string (a_id A)) = Some (Ref (a_addr A))"
    using built_tree[OF u A] .
  have n: "heap ?s' (a_addr A) (to_string (p_id P)) = Some (Ref (p_addr P))"
    using built_node[OF wf u K] .
  have ap: "to_string (getEntityId (ACCOUNT_PREFIX @ PROPERTY_PREFIX @ to_string (p_id P)) ?s') =
      to_string (a_id A)"
    using getEntityId_str[OF built_index_ap[OF u K] sa] .
  have av: "to_string (getEntityId (ACCOUNT_PREFIX @ PROFILE_PREFIX @ to_string (v_id V)) ?s') =
      to_string (a_id A)"
    using getEntityId_str[OF built_index_av[OF u E] sa] .
  have pv: "to_string (getEntityId (PROPERTY_PREFIX @ PROFILE_PREFIX @ to_string (v_id V)) ?s') =
      to_string (p_id P)"
    using getEntityId_str[OF built_index_pv[OF u E] sp] .
  have 1: "getAccountByPropertyId (p_id P) ?s' = (Inr (Ref (a_addr A)), ?s')"
    unfolding getAccountByPropertyId_def by (rule getAccount_hit) (simp only: ap t)
  have 2: "getAccountByProfileId (v_id V) ?s' = (Inr (Ref (a_addr A)), ?s')"
    unfolding getAccountByProfileId_def by (rule getAccount_hit) (simp only: av t)
  have 3: "getPropertyByProfileId (v_id V) ?s' = (Inr (Ref (p_addr P)), ?s')"
    unfolding getPropertyByProfileId_def
    by (rule getProperty'_hit[where a = "a_addr A"]) (simp_all only: av pv t n)
  show ?thesis
    by (simp only: build_run(1)[OF h] after_def option.case completion.case 1 2 3 simp_thms)
qed

theorem ancestors_of_indexed_entities_witness:
  "holds (loaded scenario) scenario_shape \<and> unique_ids scenario_shape \<and>
   plain_ids scenario_shape \<and>
   after (buildAccountTreeIndex (Ref 0) (loaded scenario)) (\<lambda>s'.
      getAccountByPropertyId (Str ''UA-1234-1'') s' = (Inr (Ref 2), s') \<and>
      getAccountByProfileId (Str ''5678'') s' = (Inr (Ref 2), s') \<and>
      getPropertyByProfileId (Str ''5678'') s' = (Inr (Ref 4), s'))"
  using ancestors_of_indexed_entities [OF scenario_holds scenario_ids,
      of "AccountShape 2 (Str ''1234'') 3
          [PropertyShape 4 (Str ''UA-1234-1'') (Some (5, [ProfileShape 6 (Str ''5678'')]))]"
         "PropertyShape 4 (Str ''UA-1234-1'') (Some (5, [ProfileShape 6 (Str ''5678'')]))"
          5 "[ProfileShape 6 (Str ''5678'')]" "ProfileShape 6 (Str ''5678'')"]
    scenario_holds scenario_ids
  by (simp add: scenario_shape_def)

text \<open>C3, at identifiers that were never inserted: \<^verbatim>\<open>getAccount\<close> returns an empty
  object, but \<^verbatim>\<open>getProperty\<close> and \<^verbatim>\<open>getProfile\<close> return \<^verbatim>\<open>undefined\<close>; their
  guards test an object that is always truthy, so \<^verbatim>\<open>return {}\<close> is never reached.
  None of the three ever throws, whatever the identifier and the state.\<close>

theorem getProperty_miss_is_undefined:
  "empty_object (getAccount (Str ''0000'') (loaded [])) \<and>
   fst (getProperty (Str ''UA-0000-0'') (loaded [])) = Inr Undefined \<and>
   fst (getProfile (Str ''0000'') (loaded [])) = Inr Undefined \<and>
   fst (getAccount i s) \<noteq> Inl e \<and> fst (getProperty i s) \<noteq> Inl e \<and>
   fst (getProfile i s) \<noteq> Inl e"
proof -
  have truthy_read: "get_prop t v k \<noteq> Inl e'" if "truthy v" for t v k e'
    using that by (cases v) simp_all
  have 1: "fst (getAccount i s) \<noteq> Inl e" for i s
    by (simp add: getAccount_def new_object_def)
  have 2: "fst (getProperty' a p s) \<noteq> Inl e" for a p s
    using truthy_read [of "lookup (accountTree s) (to_string a)" s "to_string p"]
    by (auto simp: getProperty'_def new_object_def split: sum.splits)
  have 3: "fst (getProperty i s) \<noteq> Inl e"
  proof (cases "getAccountByPropertyId i s")
    case (Pair r s')
    then have "r \<noteq> Inl e'" for e'
      using 1 [of "getEntityId (ACCOUNT_PREFIX @ PROPERTY_PREFIX @ to_string i) s" s]
      by (cases e', cases e) (simp add: getAccountByPropertyId_def)
    then obtain account where "r = Inr account" by (cases r) auto
    then show ?thesis
      using Pair truthy_read [of account s' "to_string i"]
      by (simp add: getProperty_def new_object_def)
  qed
  have 4: "fst (getProfile i s) \<noteq> Inl e"
  proof (cases "getPropertyByProfileId i s")
    case (Pair r s')
    then have "r \<noteq> Inl e'" for e'
      using 2 [of "getEntityId (ACCOUNT_PREFIX @ PROFILE_PREFIX @ to_string i) s"
          "getEntityId (PROPERTY_PREFIX @ PROFILE_PREFIX @ to_string i) s" s]
      by (cases e', cases e) (simp add: getPropertyByProfileId_def)
    then obtain property where "r = Inr property" by (cases r) auto
    then show ?thesis
      using Pair truthy_read [of property s' "to_string i"]
      by (simp add: getProfile_def new_object_def)
  qed
  have "empty_object (getAccount (Str ''0000'') (loaded [])) \<and>
   fst (getProperty (Str ''UA-0000-0'') (loaded [])) = Inr Undefined \<and>
   fst (getProfile (Str ''0000'') (loaded [])) = Inr Undefined"
    by (simp add: lookup_eval loaded_def)
  then show ?thesis using 1 3 4 by blast
qed




text \<open>C5: the scenario of one account, one property and one profile.\<close>

theorem scenario_lookups:
  "after (buildAccountTreeIndex (Ref 0) (loaded scenario)) (\<lambda>s.
     field (getAccount (Str ''1234'') s) ''name'' = Inr (Str ''Acme'') \<and>
     field (getAccountByPropertyId (Str ''UA-1234-1'') s) ''id'' = Inr (Str ''1234'') \<and>
     field (getPropertyByProfileId (Str ''5678'') s) ''id'' = Inr (Str ''UA-1234-1'') \<and>
     field (getProfile (Str ''5678'') s) ''name'' = Inr (Str ''Main View'') \<and>
     empty_object (getAccount (Str ''9999'') s))"
  by (simp add: build_eval lookup_eval scenario_def)

text \<open>C6 as stated fails where a child identifier is the name of a field that the
  build reads: the first build assigns the property \<^verbatim>\<open>"webProperties"\<close> to
  \<^verbatim>\<open>account.webProperties\<close>, so the second build iterates over that property, finds
  the profile \<^verbatim>\<open>"0"\<close> under the index 0 and indexes it as a property.
  \<^verbatim>\<open>getAccountByPropertyId("0")\<close> returns an empty object after the first build and
  the account after the second.\<close>

theorem rebuild_indexes_more:
  "buildAccountTreeIndex (Ref 0) (loaded collision) = Some (Done collision_built) \<and>
   buildAccountTreeIndex (Ref 0) collision_built = Some (Done collision_rebuilt) \<and>
   empty_object (getAccountByPropertyId (Str ''0'') collision_built) \<and>
   fst (getAccountByPropertyId (Str ''0'') collision_rebuilt) = Inr (Ref 2)"
  by (simp add: build_eval lookup_eval collision_def collision_built_def collision_rebuilt_def)

text \<open>C6, amended: on a response of well-formed shape whose identifiers are strings
  (other than \<^verbatim>\<open>__proto__\<close>) the build completes, and building again from the same
  response completes in the very same state; so every lookup, for every identifier,
  returns after the second build what it returned after the first.\<close>

theorem rebuild_is_idempotent:
  assumes h: "holds s R" and pl: "plain_ids R"
  shows "after (buildAccountTreeIndex (Ref (r_addr R)) s) (\<lambda>s1.
      buildAccountTreeIndex (Ref (r_addr R)) s1 = Some (Done s1))"
proof -
  have "buildAccountTreeIndex (Ref (r_addr R)) (apply_writes (response_writes R) s) =
      Some (Done (apply_writes (response_writes R) s))"
    using build_run(1)[OF build_run(2)[OF h]] by (simp only: apply_writes_idem)
  then show ?thesis
    by (simp only: build_run(1)[OF h] after_def option.case completion.case)
qed

theorem rebuild_is_idempotent_witness:
  "holds (loaded scenario) scenario_shape \<and> plain_ids scenario_shape \<and>
   after (buildAccountTreeIndex (Ref 0) (loaded scenario)) (\<lambda>s1.
      buildAccountTreeIndex (Ref 0) s1 = Some (Done s1))"
  using rebuild_is_idempotent [OF scenario_holds scenario_ids(2)] scenario_holds scenario_ids(2)
  by (simp add: scenario_shape_def)

text \<open>C7 as stated fails where the earlier of two accounts with one identifier has no
  \<^verbatim>\<open>webProperties\<close> field: the build stores the earlier record in the tree, throws
  a TypeError on reading \<^verbatim>\<open>account.webProperties[0]\<close> and never reaches the later
  record; \<^verbatim>\<open>getAccount\<close> then returns the earlier one.\<close>

theorem first_duplicate_stays_when_build_throws:
  "buildAccountTreeIndex (Ref 0) (loaded duplicate_partial) =
     Some (Throws TypeError ((loaded duplicate_partial)\<lparr>accountTree := [''1234'' \<mapsto> Ref 2]\<rparr>)) \<and>
   fst (getAccount (Str ''1234'')
     ((loaded duplicate_partial)\<lparr>accountTree := [''1234'' \<mapsto> Ref 2]\<rparr>)) = Inr (Ref 2)"
  by (simp add: build_eval lookup_eval duplicate_partial_def)

text \<open>C7, amended: on a response of well-formed shape (every account has its
  \<^verbatim>\<open>webProperties\<close> sequence) whose identifiers are strings other than
  \<^verbatim>\<open>__proto__\<close>, the build completes, and for an account \<open>A\<close> of \<^verbatim>\<open>items\<close> that no
  later account shares its identifier with, whatever accounts come before it,
  \<^verbatim>\<open>getAccount(A.id)\<close> returns \<open>A\<close>: among accounts with one identifier the last
  wins.\<close>

theorem last_duplicate_account_wins:
  assumes h: "holds s R" and pl: "plain_ids R" and split: "r_accounts R = pre @ A # post"
    and later: "\<forall>B \<in> set post. to_string (a_id B) \<noteq> to_string (a_id A)"
  shows "after (buildAccountTreeIndex (Ref (r_addr R)) s) (\<lambda>s'.
      getAccount (a_id A) s' = (Inr (Ref (a_addr A)), s'))"
proof -
  let ?k = "to_string (a_id A)"
  let ?rest = "concat (map (property_writes A) (a_properties A)) @ concat (map account_writes post)"
  have ws: "response_writes R =
      concat (map account_writes pre) @ WTree ?k (Ref (a_addr A)) # ?rest"
    by (simp add: response_writes_def split account_writes_def)
  have "\<forall>v. WTree ?k v \<notin> set (concat (map account_writes post))"
    using later no_tree_property_writes by (fastforce simp: account_writes_mem)
  then have "\<forall>v. WTree ?k v \<notin> set ?rest"
    using no_tree_in_properties by simp
  then have "accountTree (apply_writes (response_writes R) s) ?k = Some (Ref (a_addr A))"
    unfolding ws by (simp add: tree_untouched)
  then have "getAccount (a_id A) (apply_writes (response_writes R) s) =
      (Inr (Ref (a_addr A)), apply_writes (response_writes R) s)"
    by (rule getAccount_hit)
  then show ?thesis
    by (simp only: build_run(1)[OF h] after_def option.case completion.case)
qed

theorem last_duplicate_account_wins_witness:
  "holds (loaded duplicate_accounts) duplicate_shape \<and> plain_ids duplicate_shape \<and>
   after (buildAccountTreeIndex (Ref 0) (loaded duplicate_accounts)) (\<lambda>s'.
      getAccount (Str ''1234'') s' = (Inr (Ref 7), s'))"
  using last_duplicate_account_wins [OF duplicate_holds duplicate_ids,
      of "[AccountShape 2 (Str ''1234'') 3
          [PropertyShape 4 (Str ''UA-1234-1'') (Some (5, [ProfileShape 6 (Str ''5678'')]))]]"
         "AccountShape 7 (Str ''1234'') 8 []" "[]"]
    duplicate_holds duplicate_ids
  by (simp add: duplicate_shape_def)




text \<open>C9: each of the six lookups leaves the tree, the index and every existing object
  as they were; at most it allocates the empty object it returns.\<close>

theorem lookups_are_pure_reads:
  "unchanged s (snd (getAccount i s)) \<and>
   unchanged s (snd (getProperty i s)) \<and>
   unchanged s (snd (getProfile i s)) \<and>
   unchanged s (snd (getAccountByPropertyId i s)) \<and>
   unchanged s (snd (getAccountByProfileId i s)) \<and>
   unchanged s (snd (getPropertyByProfileId i s))"
  by (auto simp add: unchanged_def getEntityId_def getAccount_def getProperty'_def
      getAccountByPropertyId_def getAccountByProfileId_def getPropertyByProfileId_def
      getProperty_def getProfile_def new_object_def split: sum.splits prod.splits)

theorem lookups_are_pure_reads_witness:
  "unchanged (loaded scenario) (snd (getAccount (Str ''9999'') (loaded scenario))) \<and>
   heap (snd (getAccount (Str ''9999'') (loaded scenario))) 7 = Map.empty \<and>
   nxt (snd (getAccount (Str ''9999'') (loaded scenario))) = 8"
  using lookups_are_pure_reads [of "loaded scenario" "Str ''9999''"]
  by (simp add: lookup_eval loaded_def scenario_def)

text \<open>C10 as stated fails in its conclusion where a record after the falsy entry has
  an identifier that a lookup finds anyway: with \<^verbatim>\<open>items = [account, null, late, later]\<close>
  the build indexes \<^verbatim>\<open>account\<close> only, yet \<^verbatim>\<open>getAccount\<close> on the identifier of
  \<^verbatim>\<open>late\<close>, which is that of \<^verbatim>\<open>account\<close>, returns \<^verbatim>\<open>account\<close>, and on the
  identifier \<^verbatim>\<open>"constructor"\<close> of \<^verbatim>\<open>later\<close> it returns the function that the tree
  inherits from \<^verbatim>\<open>Object.prototype\<close>.\<close>

theorem late_identifier_still_hits:
  "buildAccountTreeIndex (Ref 0) (loaded null_then_known) =
     Some (Done ((loaded null_then_known)\<lparr>accountTree := [''1234'' \<mapsto> Ref 2]\<rparr>)) \<and>
   fst (getAccount (Str ''1234'')
     ((loaded null_then_known)\<lparr>accountTree := [''1234'' \<mapsto> Ref 2]\<rparr>)) = Inr (Ref 2) \<and>
   fst (getAccount (Str ''constructor'')
     ((loaded null_then_known)\<lparr>accountTree := [''1234'' \<mapsto> Ref 2]\<rparr>)) =
     Inr (Native ''constructor'')"
  by (simp add: build_eval lookup_eval null_then_known_def)

text \<open>C10, amended: each of the three loops stops at the first falsy entry of its
  sequence, whatever follows it. Hence the build on a store that holds a shape (which
  lists the entries before the first falsy entry of each sequence only) with string
  identifiers, started with an empty tree and an empty index, leaves no tree entry for
  an identifier that is not the identifier of a listed account, and
  \<^verbatim>\<open>getAccount\<close> on it returns an empty object unless it is a name that the tree
  inherits from \<^verbatim>\<open>Object.prototype\<close>; and it leaves no index entry for an identifier
  that is not the identifier of a listed property or profile. The records after a
  \<^verbatim>\<open>null\<close> or \<^verbatim>\<open>undefined\<close> entry are never indexed; a lookup on the identifier of
  such a record misses when no listed record has that identifier.\<close>

theorem entries_after_falsy_never_indexed:
  "(lookup (heap t r) ''items'' = Ref arr1 \<and> \<not> truthy (lookup (heap t arr1) (dec i1)) \<longrightarrow>
      accounts_loop (Ref r) i1 t = Some (Done t)) \<and>
   (lookup (heap t a) ''webProperties'' = Ref arr2 \<and> \<not> truthy (lookup (heap t arr2) (dec i2)) \<longrightarrow>
      properties_loop (Ref a) i2 t = Some (Done t)) \<and>
   (lookup (heap t p) ''profiles'' = Ref arr3 \<and> \<not> truthy (lookup (heap t arr3) (dec i3)) \<longrightarrow>
      profiles_loop account (Ref p) i3 t = Some (Done t)) \<and>
   (holds s R \<and> plain_ids R \<and> accountTree s = Map.empty \<and> entityIndex s = Map.empty \<longrightarrow>
      after (buildAccountTreeIndex (Ref (r_addr R)) s) (\<lambda>s'.
        (x \<notin> (\<lambda>A. to_string (a_id A)) ` set (r_accounts R) \<and>
         x \<notin> set inherited_names \<longrightarrow>
           accountTree s' x = None \<and> empty_object (getAccount (Str x) s')) \<and>
        (y \<notin> (\<lambda>(A, P). to_string (p_id P)) ` set (kept_properties R) \<longrightarrow>
           entityIndex s' (ACCOUNT_PREFIX @ PROPERTY_PREFIX @ y) = None) \<and>
        (z \<notin> (\<lambda>(A, P, V). to_string (v_id V)) ` set (entries R) \<longrightarrow>
           entityIndex s' (ACCOUNT_PREFIX @ PROFILE_PREFIX @ z) = None \<and>
           entityIndex s' (PROPERTY_PREFIX @ PROFILE_PREFIX @ z) = None)))"
proof (intro conjI impI)
  assume "lookup (heap t r) ''items'' = Ref arr1 \<and> \<not> truthy (lookup (heap t arr1) (dec i1))"
  then show "accounts_loop (Ref r) i1 t = Some (Done t)"
    by (subst accounts_loop.simps) simp
next
  assume "lookup (heap t a) ''webProperties'' = Ref arr2 \<and>
    \<not> truthy (lookup (heap t arr2) (dec i2))"
  then show "properties_loop (Ref a) i2 t = Some (Done t)"
    by (subst properties_loop.simps) simp
next
  assume "lookup (heap t p) ''profiles'' = Ref arr3 \<and> \<not> truthy (lookup (heap t arr3) (dec i3))"
  then show "profiles_loop account (Ref p) i3 t = Some (Done t)"
    by (subst profiles_loop.simps) simp
next
  assume a: "holds s R \<and> plain_ids R \<and> accountTree s = Map.empty \<and>
    entityIndex s = Map.empty"
  then have h: "holds s R" and t0: "accountTree s = Map.empty" and i0: "entityIndex s = Map.empty"
    by simp_all
  let ?s' = "apply_writes (response_writes R) s"
  have 1: "accountTree ?s' x = None \<and> empty_object (getAccount (Str x) ?s')"
    if "x \<notin> (\<lambda>A. to_string (a_id A)) ` set (r_accounts R)" "x \<notin> set inherited_names"
  proof -
    have "\<forall>v. WTree x v \<notin> set (response_writes R)"
      using that(1) by (auto simp: response_writes_mem profile_writes_mem)
    then have "accountTree ?s' x = None"
      using t0 by (simp add: tree_untouched)
    then show ?thesis
      using that(2) by (simp add: getAccount_def lookup_def new_object_def empty_object_def)
  qed
  have 2: "entityIndex ?s' (ACCOUNT_PREFIX @ PROPERTY_PREFIX @ y) = None"
    if "y \<notin> (\<lambda>(A, P). to_string (p_id P)) ` set (kept_properties R)"
  proof -
    have "\<forall>v. WIndex (ACCOUNT_PREFIX @ PROPERTY_PREFIX @ y) v \<notin> set (response_writes R)"
      using that by (force simp: response_writes_mem profile_writes_mem)
    then show ?thesis using i0 by (simp add: index_untouched)
  qed
  have 3: "entityIndex ?s' (ACCOUNT_PREFIX @ PROFILE_PREFIX @ z) = None \<and>
      entityIndex ?s' (PROPERTY_PREFIX @ PROFILE_PREFIX @ z) = None"
    if "z \<notin> (\<lambda>(A, P, V). to_string (v_id V)) ` set (entries R)"
  proof -
    have "\<forall>v. WIndex (ACCOUNT_PREFIX @ PROFILE_PREFIX @ z) v \<notin> set (response_writes R)"
      "\<forall>v. WIndex (PROPERTY_PREFIX @ PROFILE_PREFIX @ z) v \<notin> set (response_writes R)"
      using that by (force simp: response_writes_mem profile_writes_mem)+
    then show ?thesis using i0 by (simp add: index_untouched)
  qed
  have "(x \<notin> (\<lambda>A. to_string (a_id A)) ` set (r_accounts R) \<and>
         x \<notin> set inherited_names \<longrightarrow>
           accountTree ?s' x = None \<and> empty_object (getAccount (Str x) ?s')) \<and>
        (y \<notin> (\<lambda>(A, P). to_string (p_id P)) ` set (kept_properties R) \<longrightarrow>
           entityIndex ?s' (ACCOUNT_PREFIX @ PROPERTY_PREFIX @ y) = None) \<and>
        (z \<notin> (\<lambda>(A, P, V). to_string (v_id V)) ` set (entries R) \<longrightarrow>
           entityIndex ?s' (ACCOUNT_PREFIX @ PROFILE_PREFIX @ z) = None \<and>
           entityIndex ?s' (PROPERTY_PREFIX @ PROFILE_PREFIX @ z) = None)"
    using 1 2 3 by blast
  then show "after (buildAccountTreeIndex (Ref (r_addr R)) s) (\<lambda>s'.
        (x \<notin> (\<lambda>A. to_string (a_id A)) ` set (r_accounts R) \<and>
         x \<notin> set inherited_names \<longrightarrow>
           accountTree s' x = None \<and> empty_object (getAccount (Str x) s')) \<and>
        (y \<notin> (\<lambda>(A, P). to_string (p_id P)) ` set (kept_properties R) \<longrightarrow>
           entityIndex s' (ACCOUNT_PREFIX @ PROPERTY_PREFIX @ y) = None) \<and>
        (z \<notin> (\<lambda>(A, P, V). to_string (v_id V)) ` set (entries R) \<longrightarrow>
           entityIndex s' (ACCOUNT_PREFIX @ PROFILE_PREFIX @ z) = None \<and>
           entityIndex s' (PROPERTY_PREFIX @ PROFILE_PREFIX @ z) = None))"
    by (simp only: build_run(1)[OF h] after_def option.case completion.case)
qed

theorem entries_after_falsy_never_indexed_witness:
  "lookup (heap (loaded null_entries) 1) (dec 1) = Null \<and>
   lookup (heap (loaded null_entries) 1) (dec 2) = Ref 7 \<and>
   accounts_loop (Ref 0) 1 (loaded null_entries) = Some (Done (loaded null_entries)) \<and>
   lookup (heap (loaded null_entries) 3) (dec 1) = Null \<and>
   lookup (heap (loaded null_entries) 3) (dec 2) = Ref 9 \<and>
   properties_loop (Ref 2) 1 (loaded null_entries) = Some (Done (loaded null_entries)) \<and>
   lookup (heap (loaded null_entries) 5) (dec 1) = Undefined \<and>
   lookup (heap (loaded null_entries) 5) (dec 2) = Ref 10 \<and>
   profiles_loop (Ref 2) (Ref 4) 1 (loaded null_entries) = Some (Done (loaded null_entries)) \<and>
   holds (loaded null_entries) scenario_shape \<and> plain_ids scenario_shape \<and>
   after (buildAccountTreeIndex (Ref 0) (loaded null_entries)) (\<lambda>s'.
      accountTree s' ''9999'' = None \<and> empty_object (getAccount (Str ''9999'') s') \<and>
      entityIndex s' ''apUA-9999-1'' = None \<and> entityIndex s' ''av9998'' = None \<and>
      entityIndex s' ''pv9998'' = None)"
proof -
  have rd: "lookup (heap (loaded null_entries) (Suc 0)) (dec (Suc 0)) = Null"
    "lookup (heap (loaded null_entries) (Suc 0)) (dec 2) = Ref 7"
    "lookup (heap (loaded null_entries) 3) (dec (Suc 0)) = Null"
    "lookup (heap (loaded null_entries) 3) (dec 2) = Ref 9"
    "lookup (heap (loaded null_entries) 5) (dec (Suc 0)) = Undefined"
    "lookup (heap (loaded null_entries) 5) (dec 2) = Ref 10"
    "lookup (heap (loaded null_entries) 0) ''items'' = Ref (Suc 0)"
    "lookup (heap (loaded null_entries) 2) ''webProperties'' = Ref 3"
    "lookup (heap (loaded null_entries) 4) ''profiles'' = Ref 5"
    "accountTree (loaded null_entries) = Map.empty"
    "entityIndex (loaded null_entries) = Map.empty"
    by (simp_all add: loaded_def lookup_def null_entries_def dec.simps)
  have ids: "''9999'' \<notin> (\<lambda>A. to_string (a_id A)) ` set (r_accounts scenario_shape)"
    "''9999'' \<notin> set inherited_names"
    "''UA-9999-1'' \<notin> (\<lambda>(A, P). to_string (p_id P)) ` set (kept_properties scenario_shape)"
    "''9998'' \<notin> (\<lambda>(A, P, V). to_string (v_id V)) ` set (entries scenario_shape)"
    by (simp_all add: scenario_shape_def kept_properties_def entries_def profiles_of_def
        inherited_names_def)
  have r: "r_addr scenario_shape = 0" by (simp add: scenario_shape_def)
  show ?thesis
    using entries_after_falsy_never_indexed [of "loaded null_entries" 0 1 1 2 3 1 4 5 1 "Ref 2"
        "loaded null_entries" scenario_shape "''9999''" "''UA-9999-1''" "''9998''"]
      null_entries_holds scenario_ids(2)
    by (simp add: rd ids r ACCOUNT_PREFIX_def PROPERTY_PREFIX_def PROFILE_PREFIX_def)
qed

end
